theory Spec2Isabelle
  imports Main "HOL-Library.AList" "HOL-Library.Multiset" "HOL-Library.Char_ord"
    "HOL-Library.List_Lexorder"
begin

section \<open>JavaScript values\<close>

text \<open>
  Every value the handlers touch is a JavaScript value: form fields, parsed JSON bodies,
  the pinning service's reply, the stored records. Numbers are modelled as integers (byte
  sizes, token ids); fractions, exponents and the non-finite doubles are outside the model.
  A string is its sequence of UTF-8 bytes. An object is the list of its own properties in
  enumeration order.
\<close>

datatype jsval =
    JUndefined
  | JNull
  | JBool bool
  | JNum int
  | JStr string
  | JArr "jsval list"
  | JObj "(string \<times> jsval) list"

subsection \<open>\<^verbatim>\<open>JSON.stringify(v, null, 2)\<close>\<close>

text \<open>
  The serialiser follows the language standard's \<^verbatim>\<open>SerializeJSONProperty\<close> with a gap
  of two spaces. The first argument is the current indentation. A property holding
  \<^verbatim>\<open>undefined\<close> is left out of an object; an array element holding it is written
  \<^verbatim>\<open>null\<close>.
\<close>

abbreviation dquote :: char where "dquote \<equiv> CHR 0x22"
abbreviation bslash :: char where "bslash \<equiv> CHR 0x5C"
abbreviation newline :: char where "newline \<equiv> CHR 0x0A"

definition digit_char :: "nat \<Rightarrow> char" where
  "digit_char d = char_of (48 + d)"

function nat_str :: "nat \<Rightarrow> string" where
  "nat_str n = (if n < 10 then [digit_char n] else nat_str (n div 10) @ [digit_char (n mod 10)])"
  by pat_completeness auto
termination
  by (relation "measure id") auto

declare nat_str.simps [simp del]

definition int_str :: "int \<Rightarrow> string" where
  "int_str i = (if i < 0 then CHR ''-'' # nat_str (nat (- i)) else nat_str (nat i))"

definition hex_char :: "nat \<Rightarrow> char" where
  "hex_char d = (if d < 10 then char_of (48 + d) else char_of (87 + d))"

definition quote_char :: "char \<Rightarrow> string" where
  "quote_char c =
    (if c = CHR 0x08 then [bslash, CHR ''b'']
     else if c = CHR 0x09 then [bslash, CHR ''t'']
     else if c = CHR 0x0A then [bslash, CHR ''n'']
     else if c = CHR 0x0C then [bslash, CHR ''f'']
     else if c = CHR 0x0D then [bslash, CHR ''r'']
     else if c = dquote then [bslash, dquote]
     else if c = bslash then [bslash, bslash]
     else if (of_char c :: nat) < 32 then
       [bslash, CHR ''u'', CHR ''0'', CHR ''0'',
        hex_char (of_char c div 16), hex_char (of_char c mod 16)]
     else [c])"

definition QuoteJSONString :: "string \<Rightarrow> string" where
  "QuoteJSONString s = dquote # concat (map quote_char s) @ [dquote]"

definition spaces :: "nat \<Rightarrow> string" where
  "spaces n = replicate n (CHR '' '')"

fun SerializeJSONProperty :: "nat \<Rightarrow> jsval \<Rightarrow> string"
  and SerializeJSONArray :: "nat \<Rightarrow> jsval list \<Rightarrow> string"
  and SerializeJSONObject :: "nat \<Rightarrow> bool \<Rightarrow> (string \<times> jsval) list \<Rightarrow> string"
where
  "SerializeJSONProperty ind JUndefined = ''null''"
| "SerializeJSONProperty ind JNull = ''null''"
| "SerializeJSONProperty ind (JBool b) = (if b then ''true'' else ''false'')"
| "SerializeJSONProperty ind (JNum n) = int_str n"
| "SerializeJSONProperty ind (JStr s) = QuoteJSONString s"
| "SerializeJSONProperty ind (JArr xs) =
     (if xs = [] then ''[]''
      else ''['' @ newline # spaces (ind + 2) @ SerializeJSONArray (ind + 2) xs
           @ newline # spaces ind @ '']'')"
| "SerializeJSONProperty ind (JObj kvs) =
     (let partial = SerializeJSONObject (ind + 2) False kvs
      in if partial = [] then ''{}''
         else ''{'' @ newline # spaces (ind + 2) @ partial @ newline # spaces ind @ ''}'')"
| "SerializeJSONArray ind [] = []"
| "SerializeJSONArray ind [x] = SerializeJSONProperty ind x"
| "SerializeJSONArray ind (x # y # ys) =
     SerializeJSONProperty ind x @ '','' @ newline # spaces ind @ SerializeJSONArray ind (y # ys)"
| "SerializeJSONObject ind started [] = []"
| "SerializeJSONObject ind started ((k, v) # kvs) =
     (if v = JUndefined then SerializeJSONObject ind started kvs
      else (if started then '','' @ newline # spaces ind else [])
           @ QuoteJSONString k @ '': '' @ SerializeJSONProperty ind v
           @ SerializeJSONObject ind True kvs)"

definition JSON_stringify :: "jsval \<Rightarrow> string option" where
  "JSON_stringify v = (if v = JUndefined then None else Some (SerializeJSONProperty 0 v))"

subsection \<open>\<^verbatim>\<open>JSON.parse\<close>\<close>

text \<open>
  A recursive-descent parser for the JSON grammar, returning the value and the text left
  over. \<open>Unsupported\<close> marks the two constructs outside the model: a number with a
  fraction or an exponent, and a \<^verbatim>\<open>\u\<close> escape beyond ASCII. In an object with a
  repeated key the last value wins, at the place of the first. The two tests on the
  length of the remaining text (in \<open>parse_elems\<close> and \<open>parse_members\<close>) are there for
  the termination proof; they never fail.
\<close>

datatype 'a presult = Parsed 'a string | Malformed | Unsupported

fun pmap :: "('a \<Rightarrow> 'b) \<Rightarrow> 'a presult \<Rightarrow> 'b presult" where
  "pmap f (Parsed x r) = Parsed (f x) r"
| "pmap f Malformed = Malformed"
| "pmap f Unsupported = Unsupported"

definition is_ws :: "char \<Rightarrow> bool" where
  "is_ws c = (c = CHR '' '' \<or> c = CHR 0x09 \<or> c = CHR 0x0A \<or> c = CHR 0x0D)"

fun skip_ws :: "string \<Rightarrow> string" where
  "skip_ws [] = []"
| "skip_ws (c # s) = (if is_ws c then skip_ws s else c # s)"

definition is_digit :: "char \<Rightarrow> bool" where
  "is_digit c = (48 \<le> (of_char c :: nat) \<and> (of_char c :: nat) \<le> 57)"

definition digit_val :: "char \<Rightarrow> nat" where
  "digit_val c = of_char c - 48"

fun parse_digits :: "nat \<Rightarrow> string \<Rightarrow> nat \<times> string" where
  "parse_digits acc [] = (acc, [])"
| "parse_digits acc (c # s) =
     (if is_digit c then parse_digits (10 * acc + digit_val c) s else (acc, c # s))"

definition parse_int_part :: "string \<Rightarrow> (nat \<times> string) option" where
  "parse_int_part s =
     (case s of
        [] \<Rightarrow> None
      | d # r \<Rightarrow>
          if \<not> is_digit d then None
          else if d = CHR ''0'' then
            (case r of [] \<Rightarrow> Some (0, r) | c # _ \<Rightarrow> if is_digit c then None else Some (0, r))
          else Some (parse_digits 0 s))"

definition parse_number :: "string \<Rightarrow> jsval presult" where
  "parse_number s =
     (let neg = (case s of [] \<Rightarrow> False | c # _ \<Rightarrow> c = CHR ''-'');
          s1 = (if neg then tl s else s)
      in case parse_int_part s1 of
           None \<Rightarrow> Malformed
         | Some (n, r) \<Rightarrow>
             (case r of
                [] \<Rightarrow> Parsed (JNum (if neg then - int n else int n)) r
              | c # _ \<Rightarrow>
                  if c = CHR ''.'' \<or> c = CHR ''e'' \<or> c = CHR ''E'' then Unsupported
                  else Parsed (JNum (if neg then - int n else int n)) r))"

definition hex_val :: "char \<Rightarrow> nat option" where
  "hex_val c =
     (let n = (of_char c :: nat)
      in if 48 \<le> n \<and> n \<le> 57 then Some (n - 48)
         else if 97 \<le> n \<and> n \<le> 102 then Some (n - 87)
         else if 65 \<le> n \<and> n \<le> 70 then Some (n - 55)
         else None)"

definition unescape :: "char \<Rightarrow> char option" where
  "unescape e =
     (if e = dquote then Some dquote
      else if e = bslash then Some bslash
      else if e = CHR ''/'' then Some (CHR ''/'')
      else if e = CHR ''b'' then Some (CHR 0x08)
      else if e = CHR ''f'' then Some (CHR 0x0C)
      else if e = CHR ''n'' then Some (CHR 0x0A)
      else if e = CHR ''r'' then Some (CHR 0x0D)
      else if e = CHR ''t'' then Some (CHR 0x09)
      else None)"

fun parse_chars :: "string \<Rightarrow> string presult" where
  "parse_chars [] = Malformed"
| "parse_chars (c # s) =
     (if c = dquote then Parsed [] s
      else if c = bslash then
        (case s of
           [] \<Rightarrow> Malformed
         | e # s' \<Rightarrow>
             if e = CHR ''u'' then
               (case s' of
                  h1 # h2 # h3 # h4 # s'' \<Rightarrow>
                    (case (hex_val h1, hex_val h2, hex_val h3, hex_val h4) of
                       (Some a, Some b, Some c', Some d) \<Rightarrow>
                         (let n = ((a * 16 + b) * 16 + c') * 16 + d
                          in if n < 128 then pmap ((#) (char_of n)) (parse_chars s'')
                             else Unsupported)
                     | _ \<Rightarrow> Malformed)
                | _ \<Rightarrow> Malformed)
             else
               (case unescape e of
                  None \<Rightarrow> Malformed
                | Some ch \<Rightarrow> pmap ((#) ch) (parse_chars s')))
      else if (of_char c :: nat) < 32 then Malformed
      else pmap ((#) c) (parse_chars s))"

fun expect :: "string \<Rightarrow> 'a \<Rightarrow> string \<Rightarrow> 'a presult" where
  "expect [] v s = Parsed v s"
| "expect (c # cs) v [] = Malformed"
| "expect (c # cs) v (d # s) = (if c = d then expect cs v s else Malformed)"

definition object_of_members :: "(string \<times> jsval) list \<Rightarrow> (string \<times> jsval) list" where
  "object_of_members ms = foldl (\<lambda>acc (k, v). AList.update k v acc) [] ms"

function parse_value :: "string \<Rightarrow> jsval presult"
  and parse_elems :: "string \<Rightarrow> jsval list presult"
  and parse_members :: "string \<Rightarrow> (string \<times> jsval) list presult"
where
  "parse_value s =
     (case skip_ws s of
        [] \<Rightarrow> Malformed
      | c # r \<Rightarrow>
          if c = CHR ''n'' then expect ''ull'' JNull r
          else if c = CHR ''t'' then expect ''rue'' (JBool True) r
          else if c = CHR ''f'' then expect ''alse'' (JBool False) r
          else if c = dquote then pmap JStr (parse_chars r)
          else if c = CHR ''['' then
            (case skip_ws r of
               [] \<Rightarrow> Malformed
             | d # r' \<Rightarrow>
                 if d = CHR '']'' then Parsed (JArr []) r'
                 else pmap JArr (parse_elems (d # r')))
          else if c = CHR ''{'' then
            (case skip_ws r of
               [] \<Rightarrow> Malformed
             | d # r' \<Rightarrow>
                 if d = CHR ''}'' then Parsed (JObj []) r'
                 else pmap (\<lambda>ms. JObj (object_of_members ms)) (parse_members (d # r')))
          else if c = CHR ''-'' \<or> is_digit c then parse_number (c # r)
          else Malformed)"
| "parse_elems s =
     (case parse_value s of
        Parsed v r \<Rightarrow>
          (case skip_ws r of
             [] \<Rightarrow> Malformed
           | c # r' \<Rightarrow>
               if c = CHR '','' then
                 (if length r' < length s then pmap ((#) v) (parse_elems r') else Malformed)
               else if c = CHR '']'' then Parsed [v] r'
               else Malformed)
      | Malformed \<Rightarrow> Malformed
      | Unsupported \<Rightarrow> Unsupported)"
| "parse_members s =
     (case skip_ws s of
        [] \<Rightarrow> Malformed
      | q # r \<Rightarrow>
          if q \<noteq> dquote then Malformed
          else
            (case parse_chars r of
               Parsed k r1 \<Rightarrow>
                 (case skip_ws r1 of
                    [] \<Rightarrow> Malformed
                  | col # r2 \<Rightarrow>
                      if col \<noteq> CHR '':'' then Malformed
                      else
                        (case parse_value r2 of
                           Parsed v r3 \<Rightarrow>
                             (case skip_ws r3 of
                                [] \<Rightarrow> Malformed
                              | c # r4 \<Rightarrow>
                                  if c = CHR '','' then
                                    (if length r4 < length s
                                     then pmap ((#) (k, v)) (parse_members r4)
                                     else Malformed)
                                  else if c = CHR ''}'' then Parsed [(k, v)] r4
                                  else Malformed)
                         | Malformed \<Rightarrow> Malformed
                         | Unsupported \<Rightarrow> Unsupported))
             | Malformed \<Rightarrow> Malformed
             | Unsupported \<Rightarrow> Unsupported))"
  by pat_completeness auto
termination
proof -
  have ws: "length (skip_ws s) \<le> length s" for s
    by (induction s) auto
  have pm: "pmap f p = Parsed x r \<longleftrightarrow> (\<exists>y. p = Parsed y r \<and> x = f y)"
    for f :: "string \<Rightarrow> string" and p x r
    by (cases p) auto
  have pc: "parse_chars s = Parsed x r \<Longrightarrow> length r < length s" for s x r
    by (induction s arbitrary: x rule: parse_chars.induct)
       (fastforce simp: pm Let_def split: if_splits list.splits option.splits)+
  show ?thesis
  proof (relation "measure (\<lambda>x. case x of Inl s \<Rightarrow> 2 * length s
                                       | Inr (Inl s) \<Rightarrow> 2 * length s + 1
                                       | Inr (Inr s) \<Rightarrow> 2 * length s + 1)", goal_cases)
    case 1
    then show ?case by simp
  next
    case (2 s c r d r')
    then show ?case
      using ws [of s] ws [of r] by simp
  next
    case (3 s c r d r')
    then show ?case
      using ws [of s] ws [of r] by simp
  next
    case (4 s)
    then show ?case by simp
  next
    case (5 s v r c r')
    then show ?case by simp
  next
    case (6 s q r k r1 col r2)
    then show ?case
      using ws [of s] ws [of r1] pc [of r k r1] by simp
  next
    case (7 s q r k r1 col r2 v r3 c r4)
    then show ?case by simp
  qed
qed

declare parse_value.simps [simp del] parse_elems.simps [simp del] parse_members.simps [simp del]

subsection \<open>Operators and property access\<close>

text \<open>Truthiness, as tested by \<^verbatim>\<open>!x\<close>, \<^verbatim>\<open>x || y\<close> and \<^verbatim>\<open>x ? a : b\<close>.\<close>

fun truthy :: "jsval \<Rightarrow> bool" where
  "truthy JUndefined = False"
| "truthy JNull = False"
| "truthy (JBool b) = b"
| "truthy (JNum n) = (n \<noteq> 0)"
| "truthy (JStr s) = (s \<noteq> [])"
| "truthy (JArr xs) = True"
| "truthy (JObj kvs) = True"

definition js_or :: "jsval \<Rightarrow> jsval \<Rightarrow> jsval" where
  "js_or a b = (if truthy a then a else b)"

text \<open>
  Property read \<^verbatim>\<open>v.k\<close> on a value that is neither \<^verbatim>\<open>null\<close> nor
  \<^verbatim>\<open>undefined\<close>, and \<^verbatim>\<open>v?.k\<close> on any value: only objects carry the
  properties the handlers read. A plain read on \<^verbatim>\<open>null\<close> or \<^verbatim>\<open>undefined\<close>
  throws; each place where the source can do that is a branch of its own below.
\<close>

fun get_prop :: "jsval \<Rightarrow> string \<Rightarrow> jsval" where
  "get_prop (JObj kvs) k = (case map_of kvs k of None \<Rightarrow> JUndefined | Some v \<Rightarrow> v)"
| "get_prop v k = JUndefined"

text \<open>Property write on an object literal: an existing key keeps its place.\<close>

definition set_prop :: "(string \<times> jsval) list \<Rightarrow> string \<Rightarrow> jsval \<Rightarrow> (string \<times> jsval) list" where
  "set_prop kvs k v = AList.update k v kvs"

text \<open>Object spread \<^verbatim>\<open>{...v}\<close>: the own properties of an object, none of a primitive.\<close>

fun spread :: "jsval \<Rightarrow> (string \<times> jsval) list" where
  "spread (JObj kvs) = kvs"
| "spread v = []"

subsection \<open>Errors thrown by the runtime\<close>

text \<open>
  Only the kind of a thrown error matters to the handlers (and, for file errors, its
  \<^verbatim>\<open>code\<close>). The text of \<^verbatim>\<open>err.message\<close> is engine-defined; \<open>message\<close> gives a
  representative one. \<open>Unmodelled\<close> marks JSON text outside the modelled fragment
  (fractions, exponents, \<^verbatim>\<open>\u\<close> escapes beyond ASCII).
\<close>

datatype js_error = SystemError string | SyntaxError | TypeError string | Unmodelled

fun message :: "js_error \<Rightarrow> string" where
  "message (SystemError c) = c"
| "message SyntaxError = ''Unexpected token in JSON''"
| "message (TypeError m) = m"
| "message Unmodelled = ''unmodelled''"

definition JSON_parse :: "string \<Rightarrow> js_error + jsval" where
  "JSON_parse s =
     (case parse_value s of
        Parsed v r \<Rightarrow> if skip_ws r = [] then Inr v else Inl SyntaxError
      | Malformed \<Rightarrow> Inl SyntaxError
      | Unsupported \<Rightarrow> Inl Unmodelled)"

text \<open>\<^verbatim>\<open>String(v)\<close>, as a template literal applies it.\<close>

fun ToString :: "jsval \<Rightarrow> string"
  and join_elems :: "jsval list \<Rightarrow> string"
where
  "ToString JUndefined = ''undefined''"
| "ToString JNull = ''null''"
| "ToString (JBool b) = (if b then ''true'' else ''false'')"
| "ToString (JNum n) = int_str n"
| "ToString (JStr s) = s"
| "ToString (JArr xs) = join_elems xs"
| "ToString (JObj kvs) = ''[object Object]''"
| "join_elems [] = []"
| "join_elems [x] = (if x = JUndefined \<or> x = JNull then [] else ToString x)"
| "join_elems (x # y # ys) =
     (if x = JUndefined \<or> x = JNull then [] else ToString x) @ '','' @ join_elems (y # ys)"

text \<open>
  The values \<^verbatim>\<open>JSON.parse\<close> can return: no \<^verbatim>\<open>undefined\<close> at any depth and no
  repeated key.
\<close>

fun is_json :: "jsval \<Rightarrow> bool"
  and is_json_list :: "jsval list \<Rightarrow> bool"
  and is_json_members :: "(string \<times> jsval) list \<Rightarrow> bool"
where
  "is_json JUndefined = False"
| "is_json JNull = True"
| "is_json (JBool b) = True"
| "is_json (JNum n) = True"
| "is_json (JStr s) = True"
| "is_json (JArr xs) = is_json_list xs"
| "is_json (JObj kvs) = (distinct (map fst kvs) \<and> is_json_members kvs)"
| "is_json_list [] = True"
| "is_json_list (x # xs) = (is_json x \<and> is_json_list xs)"
| "is_json_members [] = True"
| "is_json_members ((k, v) # kvs) = (is_json v \<and> is_json_members kvs)"


text \<open>
  What \<^verbatim>\<open>JSON.parse(JSON.stringify(v))\<close> returns: properties holding
  \<^verbatim>\<open>undefined\<close> are gone, array elements holding it are \<^verbatim>\<open>null\<close>.
\<close>

fun json_image :: "jsval \<Rightarrow> jsval"
  and json_image_list :: "jsval list \<Rightarrow> jsval list"
  and json_image_members :: "(string \<times> jsval) list \<Rightarrow> (string \<times> jsval) list"
where
  "json_image JUndefined = JNull"
| "json_image JNull = JNull"
| "json_image (JBool b) = JBool b"
| "json_image (JNum n) = JNum n"
| "json_image (JStr s) = JStr s"
| "json_image (JArr xs) = JArr (json_image_list xs)"
| "json_image (JObj kvs) = JObj (json_image_members kvs)"
| "json_image_list [] = []"
| "json_image_list (x # xs) = json_image x # json_image_list xs"
| "json_image_members [] = []"
| "json_image_members ((k, v) # kvs) =
     (if v = JUndefined then json_image_members kvs
      else (k, json_image v) # json_image_members kvs)"

text \<open>
  A value of the runtime has no object with a repeated key; \<open>wf_val\<close> says so at every
  depth.
\<close>

fun wf_val :: "jsval \<Rightarrow> bool"
  and wf_list :: "jsval list \<Rightarrow> bool"
  and wf_members :: "(string \<times> jsval) list \<Rightarrow> bool"
where
  "wf_val (JArr xs) = wf_list xs"
| "wf_val (JObj kvs) = (distinct (map fst kvs) \<and> wf_members kvs)"
| "wf_val v = True"
| "wf_list [] = True"
| "wf_list (x # xs) = (wf_val x \<and> wf_list xs)"
| "wf_members [] = True"
| "wf_members ((k, v) # kvs) = (wf_val v \<and> wf_members kvs)"

section \<open>The flat-file store\<close>

text \<open>
  The store is the one file \<^verbatim>\<open>submissions.json\<close>: absent, present with a text, or
  failing every access with a system error code (\<^verbatim>\<open>EACCES\<close>, \<^verbatim>\<open>EISDIR\<close>, ...).
\<close>

datatype disk = NoFile | File string | Broken string

fun readFile :: "disk \<Rightarrow> js_error + string" where
  "readFile NoFile = Inl (SystemError ''ENOENT'')"
| "readFile (File data) = Inr data"
| "readFile (Broken c) = Inl (SystemError c)"

fun writeFile :: "disk \<Rightarrow> string \<Rightarrow> js_error + disk" where
  "writeFile NoFile data = Inr (File data)"
| "writeFile (File old) data = Inr (File data)"
| "writeFile (Broken c) data = Inl (SystemError c)"

definition loadSubmissions :: "disk \<Rightarrow> js_error + jsval" where
  "loadSubmissions fs =
     (case readFile fs of
        Inr data \<Rightarrow> JSON_parse data
      | Inl err \<Rightarrow> if err = SystemError ''ENOENT'' then Inr (JArr []) else Inl err)"

text \<open>
  \<^verbatim>\<open>JSON.stringify\<close> returns \<^verbatim>\<open>undefined\<close> for \<^verbatim>\<open>undefined\<close>, which
  \<^verbatim>\<open>fs.writeFile\<close> rejects.
\<close>

definition saveSubmissions :: "disk \<Rightarrow> jsval \<Rightarrow> js_error + disk" where
  "saveSubmissions fs arr =
     (case JSON_stringify arr of
        None \<Rightarrow> Inl (TypeError ''The data argument must be of type string'')
      | Some text \<Rightarrow> writeFile fs text)"

section \<open>Requests, responses and the world around a handler\<close>

record upload =
  buffer :: string
  originalname :: string
  mimetype :: string
  file_size :: nat

record request =
  body :: jsval
  "file" :: "upload option"

record response =
  status :: nat
  json :: jsval

text \<open>
  The multipart form sent to the pinning service. The metadata and options parts are kept
  as the values that the source stringifies.
\<close>

record pin_request =
  file_buffer :: string
  filename :: string
  contentType :: string
  knownLength :: nat
  pinataMetadata :: jsval
  pinataOptions :: jsval
  authorization :: string

text \<open>
  What one request meets outside the process: the configured credential, the answer of
  \<^verbatim>\<open>axios.post\<close> (\<open>Inl\<close> is the message of the rejection, \<open>Inr\<close> is
  \<^verbatim>\<open>pinataResp.data\<close>), the identifier \<^verbatim>\<open>uuidv4()\<close> returns, the value of
  \<^verbatim>\<open>new Date().toISOString()\<close>, and whether the remote table call fails.
\<close>

record env =
  PINATA_JWT :: "string option"
  axios_post :: "pin_request \<Rightarrow> string + jsval"
  uuidv4 :: string
  now :: string
  supabase_error :: "string option"

text \<open>
  The outcome of a handler: the response, the store it leaves, and the pin calls it made.
\<close>

record 's outcome =
  response :: response
  store :: 's
  pins :: "pin_request list"

definition reply :: "nat \<Rightarrow> jsval \<Rightarrow> 's \<Rightarrow> pin_request list \<Rightarrow> 's outcome" where
  "reply code b s ps = \<lparr>response = \<lparr>status = code, json = b\<rparr>, store = s, pins = ps\<rparr>"

definition error_body :: "string \<Rightarrow> jsval" where
  "error_body m = JObj [(''error'', JStr m)]"

definition server_error :: "string \<Rightarrow> jsval" where
  "server_error details = JObj [(''error'', JStr ''Server error''), (''details'', JStr details)]"

definition pinata_form :: "jsval \<Rightarrow> upload \<Rightarrow> string \<Rightarrow> pin_request" where
  "pinata_form b f auth =
     \<lparr>file_buffer = buffer f, filename = originalname f, contentType = mimetype f,
      knownLength = file_size f,
      pinataMetadata = JObj
        [(''name'', JStr (originalname f)),
         (''keyvalues'', JObj
            [(''uploader'', js_or (get_prop b ''name'') (JStr ''anonymous'')),
             (''description'', js_or (get_prop b ''description'') (JStr ''''))])],
      pinataOptions = JObj [(''cidVersion'', JNum 1)],
      authorization = auth\<rparr>"

definition gateway_url :: "jsval \<Rightarrow> jsval" where
  "gateway_url ipfsHash =
     (if truthy ipfsHash then JStr (''https://gateway.pinata.cloud/ipfs/'' @ ToString ipfsHash)
      else JNull)"

section \<open>The flat-file variant (server.js)\<close>

text \<open>The record assembled by \<^verbatim>\<open>POST /submitData\<close>.\<close>

definition submission_record :: "env \<Rightarrow> jsval \<Rightarrow> upload \<Rightarrow> jsval \<Rightarrow> jsval" where
  "submission_record e b f data =
     (let ipfsHash = get_prop data ''IpfsHash'';
          ipfsUrl = gateway_url ipfsHash
      in JObj
        [(''id'', JStr (uuidv4 e)),
         (''applicantAddress'', js_or (get_prop b ''applicantAddress'') JNull),
         (''title'', js_or (get_prop b ''name'') JNull),
         (''description'', js_or (get_prop b ''description'') JNull),
         (''latitude'', js_or (get_prop b ''latitude'') JNull),
         (''longitude'', js_or (get_prop b ''longitude'') JNull),
         (''ipfsHash'', ipfsHash),
         (''imageUrl'', ipfsUrl),
         (''originalFileName'', JStr (originalname f)),
         (''mimeType'', JStr (mimetype f)),
         (''size'', JNum (int (file_size f))),
         (''createdAt'', JStr (now e)),
         (''status'', JStr ''pending'')])"

text \<open>
  \<^verbatim>\<open>submissions.push(submission)\<close>: only an array has the method; on any other parsed
  value the call throws.
\<close>

fun array_push :: "jsval \<Rightarrow> jsval \<Rightarrow> js_error + jsval" where
  "array_push (JArr xs) x = Inr (JArr (xs @ [x]))"
| "array_push v x = Inl (TypeError ''submissions.push is not a function'')"

text \<open>
  The upload pipeline shared by the flat-file servers. They differ in the text of the
  missing-file message and in the record they assemble, so both are arguments.
\<close>

definition flat_submit ::
  "string \<Rightarrow> (env \<Rightarrow> jsval \<Rightarrow> upload \<Rightarrow> jsval \<Rightarrow> jsval) \<Rightarrow> env \<Rightarrow> disk \<Rightarrow> request \<Rightarrow> disk outcome"
where
  "flat_submit missing_file assemble e fs req =
     (if \<not> truthy (body req) \<or> \<not> truthy (get_prop (body req) ''description'') then
        reply 400 (error_body ''Missing required field: description'') fs []
      else case file req of
        None \<Rightarrow> reply 400 (error_body missing_file) fs []
      | Some f \<Rightarrow>
          (case PINATA_JWT e of
             None \<Rightarrow> reply 500 (error_body ''Pinata JWT not configured on server'') fs []
           | Some jwt \<Rightarrow>
               if jwt = [] then
                 reply 500 (error_body ''Pinata JWT not configured on server'') fs []
               else
                 (let form = pinata_form (body req) f (''Bearer '' @ jwt)
                  in case axios_post e form of
                       Inl m \<Rightarrow> reply 500 (server_error m) fs [form]
                     | Inr data \<Rightarrow>
                         (let submission = assemble e (body req) f data
                          in case loadSubmissions fs of
                               Inl err \<Rightarrow> reply 500 (server_error (message err)) fs [form]
                             | Inr submissions \<Rightarrow>
                                 (case array_push submissions submission of
                                    Inl err \<Rightarrow> reply 500 (server_error (message err)) fs [form]
                                  | Inr arr \<Rightarrow>
                                      (case saveSubmissions fs arr of
                                         Inl err \<Rightarrow>
                                           reply 500 (server_error (message err)) fs [form]
                                       | Inr fs' \<Rightarrow>
                                           reply 201
                                             (JObj [(''success'', JBool True),
                                                    (''submission'', submission)])
                                             fs' [form]))))))"

definition submitData :: "env \<Rightarrow> disk \<Rightarrow> request \<Rightarrow> disk outcome" where
  "submitData =
     flat_submit (''Missing image file (field name must be '' @ [dquote] @ ''image''
                  @ [dquote] @ '')'') submission_record"

text \<open>\<^verbatim>\<open>GET /api/submissions\<close>: the parsed file, as it is.\<close>

definition get_submissions :: "disk \<Rightarrow> disk outcome" where
  "get_submissions fs =
     (case loadSubmissions fs of
        Inl err \<Rightarrow> reply 500 (error_body ''Failed to read submissions'') fs []
      | Inr submissions \<Rightarrow> reply 200 submissions fs [])"

text \<open>
  \<^verbatim>\<open>submissions.findIndex((s) => s.id === id)\<close>: the first index whose element has the
  id, \<open>None\<close> for \<^verbatim>\<open>-1\<close>. Reading \<^verbatim>\<open>.id\<close> of a \<^verbatim>\<open>null\<close> element throws.
\<close>

fun findIndex :: "jsval list \<Rightarrow> string \<Rightarrow> js_error + nat option" where
  "findIndex [] i = Inr None"
| "findIndex (s # ss) i =
     (if s = JNull \<or> s = JUndefined then
        Inl (TypeError ''Cannot read properties of null (reading id)'')
      else if get_prop s ''id'' = JStr i then Inr (Some 0)
      else (case findIndex ss i of
              Inl err \<Rightarrow> Inl err
            | Inr None \<Rightarrow> Inr None
            | Inr (Some n) \<Rightarrow> Inr (Some (Suc n))))"

text \<open>
  The object \<^verbatim>\<open>{...s, status: "approved", txHash, tokenId, metadataURI}\<close>.
\<close>

definition minted_record :: "jsval \<Rightarrow> jsval \<Rightarrow> jsval" where
  "minted_record s b =
     JObj (set_prop (set_prop (set_prop (set_prop (spread s)
             ''status'' (JStr ''approved''))
             ''txHash'' (get_prop b ''txHash''))
             ''tokenId'' (get_prop b ''tokenId''))
             ''metadataURI'' (get_prop b ''metadataURI''))"

text \<open>
  \<^verbatim>\<open>POST /api/submissions/:id/minted\<close>. Destructuring \<^verbatim>\<open>req.body\<close> throws when the
  body is \<^verbatim>\<open>null\<close> or \<^verbatim>\<open>undefined\<close>; \<^verbatim>\<open>findIndex\<close> exists on arrays only.
\<close>

definition minted :: "disk \<Rightarrow> string \<Rightarrow> jsval \<Rightarrow> disk outcome" where
  "minted fs i b =
     (if b = JUndefined \<or> b = JNull then
        reply 500 (error_body ''Failed to mark minted'') fs []
      else case loadSubmissions fs of
        Inl err \<Rightarrow> reply 500 (error_body ''Failed to mark minted'') fs []
      | Inr (JArr xs) \<Rightarrow>
          (case findIndex xs i of
             Inl err \<Rightarrow> reply 500 (error_body ''Failed to mark minted'') fs []
           | Inr None \<Rightarrow> reply 404 (error_body ''Not found'') fs []
           | Inr (Some idx) \<Rightarrow>
               (let updated = minted_record (xs ! idx) b
                in case saveSubmissions fs (JArr (xs[idx := updated])) of
                     Inl err \<Rightarrow> reply 500 (error_body ''Failed to mark minted'') fs []
                   | Inr fs' \<Rightarrow>
                       reply 200 (JObj [(''success'', JBool True), (''submission'', updated)])
                         fs' []))
      | Inr other \<Rightarrow> reply 500 (error_body ''Failed to mark minted'') fs [])"

section \<open>The older flat-file servers\<close>

text \<open>
  The first server (\<^verbatim>\<open>POST /submitData\<close> with \<^verbatim>\<open>GET /getSubmissions\<close>) assembles a
  shorter record; the rest of its pipeline is the one above.
\<close>

definition submission_record_v1 :: "env \<Rightarrow> jsval \<Rightarrow> upload \<Rightarrow> jsval \<Rightarrow> jsval" where
  "submission_record_v1 e b f data =
     (let ipfsHash = get_prop data ''IpfsHash'';
          ipfsUrl = gateway_url ipfsHash
      in JObj
        [(''id'', JStr (uuidv4 e)),
         (''name'', js_or (get_prop b ''name'') JNull),
         (''description'', js_or (get_prop b ''description'') JNull),
         (''latitude'', js_or (get_prop b ''latitude'') JNull),
         (''longitude'', js_or (get_prop b ''longitude'') JNull),
         (''ipfsHash'', ipfsHash),
         (''ipfsUrl'', ipfsUrl),
         (''originalFileName'', JStr (originalname f)),
         (''mimeType'', JStr (mimetype f)),
         (''size'', JNum (int (file_size f))),
         (''createdAt'', JStr (now e))])"

definition submitData_v1 :: "env \<Rightarrow> disk \<Rightarrow> request \<Rightarrow> disk outcome" where
  "submitData_v1 =
     flat_submit (''Missing image file (field name must be '' @ [dquote] @ ''image''
                  @ [dquote] @ '')'') submission_record_v1"

text \<open>
  The flat-file server with the \<^verbatim>\<open>/api/submissions\<close> routes differs from server.js in
  the missing-file message only.
\<close>

definition api_submissions_flat :: "env \<Rightarrow> disk \<Rightarrow> request \<Rightarrow> disk outcome" where
  "api_submissions_flat =
     flat_submit (''Missing file (field name must be '' @ [dquote] @ ''file''
                  @ [dquote] @ '')'') submission_record"

section \<open>The remote-table variant\<close>

text \<open>
  The managed table is outside the repository. It is modelled as the list of its rows, each
  the JSON object the client sent, with the three calls the handlers make:
  \<^item> an insert appends the rows as they arrive over the wire, that is after
    \<^verbatim>\<open>JSON.stringify\<close> has dropped the properties holding \<^verbatim>\<open>undefined\<close>;
  \<^item> a select with \<^verbatim>\<open>order(col, {ascending: false})\<close> returns the rows sorted by that
    column, largest first, rows without a string there first (as \<^verbatim>\<open>NULL\<close>s are);
  \<^item> an update with \<^verbatim>\<open>eq(col, v).select().single()\<close> patches the row whose column
    equals \<open>v\<close> and returns it; with no such row, or several, the call reports an
    error and changes nothing.
  A call fails without effect when the environment says so (\<open>supabase_error\<close>).
\<close>

type_synonym table = "jsval list"

definition sb_insert :: "string option \<Rightarrow> table \<Rightarrow> jsval list \<Rightarrow> string + table" where
  "sb_insert fault t rows =
     (case fault of Some m \<Rightarrow> Inl m | None \<Rightarrow> Inr (t @ json_image_list rows))"

fun order_key :: "jsval \<Rightarrow> string option" where
  "order_key (JStr s) = Some s"
| "order_key v = None"

fun precedes :: "string option \<Rightarrow> string option \<Rightarrow> bool" where
  "precedes None b = True"
| "precedes (Some x) None = False"
| "precedes (Some x) (Some y) = (y \<le> x)"

fun insert_desc :: "string \<Rightarrow> jsval \<Rightarrow> jsval list \<Rightarrow> jsval list" where
  "insert_desc col r [] = [r]"
| "insert_desc col r (x # xs) =
     (if precedes (order_key (get_prop r col)) (order_key (get_prop x col)) then r # x # xs
      else x # insert_desc col r xs)"

definition order_desc :: "string \<Rightarrow> jsval list \<Rightarrow> jsval list" where
  "order_desc col rows = foldr (insert_desc col) rows []"

definition sb_select_order_desc :: "string option \<Rightarrow> table \<Rightarrow> string \<Rightarrow> string + jsval list" where
  "sb_select_order_desc fault t col =
     (case fault of Some m \<Rightarrow> Inl m | None \<Rightarrow> Inr (order_desc col t))"

definition apply_patch :: "jsval \<Rightarrow> (string \<times> jsval) list \<Rightarrow> jsval" where
  "apply_patch row patch = JObj (foldl (\<lambda>kvs (k, v). set_prop kvs k v) (spread row) patch)"

definition sb_update_eq_single ::
  "string option \<Rightarrow> table \<Rightarrow> (string \<times> jsval) list \<Rightarrow> string \<Rightarrow> string \<Rightarrow> string + (table \<times> jsval)"
where
  "sb_update_eq_single fault t patch col v =
     (case fault of
        Some m \<Rightarrow> Inl m
      | None \<Rightarrow>
          (case filter (\<lambda>r. get_prop r col = JStr v) t of
             [r] \<Rightarrow>
               Inr (map (\<lambda>x. if get_prop x col = JStr v
                              then apply_patch x (json_image_members patch) else x) t,
                    apply_patch r (json_image_members patch))
           | other \<Rightarrow> Inl ''JSON object requested, multiple (or no) rows returned''))"

text \<open>The record assembled by the remote \<^verbatim>\<open>POST /api/submissions\<close>.\<close>

definition submission_record_sb :: "env \<Rightarrow> jsval \<Rightarrow> upload \<Rightarrow> jsval \<Rightarrow> jsval" where
  "submission_record_sb e b f data =
     (let ipfsHash = get_prop data ''IpfsHash'';
          ipfsUrl = gateway_url ipfsHash
      in JObj
        [(''id'', JStr (uuidv4 e)),
         (''applicantAddress'', js_or (get_prop b ''applicantAddress'') JNull),
         (''title'', js_or (get_prop b ''name'') JNull),
         (''description'', get_prop b ''description''),
         (''latitude'', js_or (get_prop b ''latitude'') JNull),
         (''longitude'', js_or (get_prop b ''longitude'') JNull),
         (''ipfsHash'', ipfsHash),
         (''imageUrl'', ipfsUrl),
         (''originalFileName'', JStr (originalname f)),
         (''mimeType'', JStr (mimetype f)),
         (''size'', JNum (int (file_size f))),
         (''createdAt'', JStr (now e)),
         (''status'', JStr ''pending'')])"

definition api_submissions :: "env \<Rightarrow> table \<Rightarrow> request \<Rightarrow> table outcome" where
  "api_submissions e t req =
     (if \<not> truthy (get_prop (body req) ''description'') then
        reply 400 (error_body ''Missing description'') t []
      else case file req of
        None \<Rightarrow>
          reply 400 (error_body (''Missing file (field name '' @ [CHR 0x27] @ ''file''
                                 @ [CHR 0x27] @ '')'')) t []
      | Some f \<Rightarrow>
          (let form = pinata_form (body req) f
                        (''Bearer '' @ (case PINATA_JWT e of None \<Rightarrow> ''undefined'' | Some jwt \<Rightarrow> jwt))
           in case axios_post e form of
                Inl m \<Rightarrow> reply 500 (server_error m) t [form]
              | Inr data \<Rightarrow>
                  (let submission = submission_record_sb e (body req) f data
                   in case sb_insert (supabase_error e) t [submission] of
                        Inl m \<Rightarrow> reply 500 (server_error m) t [form]
                      | Inr t' \<Rightarrow>
                          reply 201
                            (JObj [(''success'', JBool True), (''submission'', submission)])
                            t' [form])))"

definition get_submissions_sb :: "env \<Rightarrow> table \<Rightarrow> table outcome" where
  "get_submissions_sb e t =
     (case sb_select_order_desc (supabase_error e) t ''createdAt'' of
        Inl m \<Rightarrow> reply 500 (error_body ''Failed to fetch submissions'') t []
      | Inr data \<Rightarrow> reply 200 (JArr data) t [])"

definition minted_sb :: "env \<Rightarrow> table \<Rightarrow> string \<Rightarrow> jsval \<Rightarrow> table outcome" where
  "minted_sb e t i b =
     (if b = JUndefined \<or> b = JNull then
        reply 500 (error_body ''Failed to mark minted'') t []
      else
        (let patch = [(''status'', JStr ''approved''),
                      (''txHash'', get_prop b ''txHash''),
                      (''tokenId'', get_prop b ''tokenId''),
                      (''metadataURI'', get_prop b ''metadataURI'')]
         in case sb_update_eq_single (supabase_error e) t patch ''id'' i of
              Inl m \<Rightarrow> reply 500 (error_body ''Failed to mark minted'') t []
            | Inr (t', data) \<Rightarrow>
                reply 200 (JObj [(''success'', JBool True), (''submission'', data)]) t' []))"

text \<open>\<^verbatim>\<open>POST /api/projects\<close>, on the projects table.\<close>

definition project_row :: "env \<Rightarrow> jsval \<Rightarrow> jsval" where
  "project_row e b =
     JObj
       [(''projectId'', get_prop b ''projectId''),
        (''projectName'', get_prop b ''projectName''),
        (''latitude'', get_prop b ''latitude''),
        (''longitude'', get_prop b ''longitude''),
        (''ecosystemType'', get_prop b ''ecosystemType''),
        (''ownership'', get_prop b ''ownership''),
        (''governance'', get_prop b ''governance''),
        (''implementingAgency'', get_prop b ''implementingAgency''),
        (''projectDescription'', get_prop b ''projectDescription''),
        (''area'', get_prop b ''area''),
        (''establishmentDate'', get_prop b ''establishmentDate''),
        (''status'', JStr ''draft''),
        (''createdAt'', JStr (now e))]"

definition api_projects :: "env \<Rightarrow> table \<Rightarrow> jsval \<Rightarrow> table outcome" where
  "api_projects e t b =
     (if b = JUndefined \<or> b = JNull then
        reply 500 (server_error ''Cannot destructure property of req.body'') t []
      else if \<not> truthy (get_prop b ''projectId'') \<or> \<not> truthy (get_prop b ''projectName'')
              \<or> \<not> truthy (get_prop b ''latitude'') \<or> \<not> truthy (get_prop b ''longitude'')
              \<or> \<not> truthy (get_prop b ''ecosystemType'')
              \<or> \<not> truthy (get_prop b ''implementingAgency'') then
        reply 400 (error_body ''Missing required fields'') t []
      else case sb_insert (supabase_error e) t [project_row e b] of
             Inl m \<Rightarrow> reply 500 (server_error m) t []
           | Inr t' \<Rightarrow>
               reply 201
                 (JObj [(''success'', JBool True), (''project'', json_image (project_row e b))])
                 t' [])"

section \<open>Notions used in the statements\<close>


fun writable :: "disk \<Rightarrow> bool" where
  "writable (Broken c) = False"
| "writable fs = True"

text \<open>The four properties that marking a record as minted writes.\<close>

definition minted_keys :: "string list" where
  "minted_keys = [''status'', ''txHash'', ''tokenId'', ''metadataURI'']"

text \<open>The value of the \<^verbatim>\<open>createdAt\<close> property of each element of a listing.\<close>

definition created_times :: "jsval list \<Rightarrow> jsval list" where
  "created_times rows = map (\<lambda>r. get_prop r ''createdAt'') rows"

text \<open>The records a listing of the flat-file store shows.\<close>

definition stored_records :: "disk \<Rightarrow> jsval list" where
  "stored_records fs = (case loadSubmissions fs of Inr (JArr ys) \<Rightarrow> ys | _ \<Rightarrow> [])"

text \<open>The record an answer carries under \<^verbatim>\<open>submission\<close>.\<close>

definition returned_record :: "'s outcome \<Rightarrow> jsval" where
  "returned_record out = get_prop (json (response out)) ''submission''"

text \<open>A successful pin reply that carries no content identifier.\<close>

definition pinned_without_hash :: "string + jsval" where
  "pinned_without_hash = Inr (JObj [(''PinSize'', JNum 3)])"

text \<open>The array a listing answers with.\<close>

definition listing :: "'s outcome \<Rightarrow> jsval list" where
  "listing out = (case json (response out) of JArr rows \<Rightarrow> rows | _ \<Rightarrow> [])"

text \<open>
  The creation time of a row, as the ISO string the handlers store. ISO strings of
  \<^verbatim>\<open>toISOString\<close> compare as the instants they denote.
\<close>

definition created_at :: "jsval \<Rightarrow> string" where
  "created_at r = (case get_prop r ''createdAt'' of JStr s \<Rightarrow> s | _ \<Rightarrow> [])"

definition has_created_at :: "jsval \<Rightarrow> bool" where
  "has_created_at r = (case get_prop r ''createdAt'' of JStr s \<Rightarrow> True | _ \<Rightarrow> False)"

subsection \<open>Concrete inputs\<close>

definition example_upload :: upload where
  "example_upload =
     \<lparr>buffer = ''PNG'', originalname = ''site.png'', mimetype = ''image/png'', file_size = 3\<rparr>"

definition example_request :: request where
  "example_request =
     \<lparr>body = JObj [(''description'', JStr ''mangrove plot''), (''name'', JStr ''asha'')],
      file = Some example_upload\<rparr>"

text \<open>
  An environment whose pin call answers with \<open>reply\<close>, for the request that gets
  identifier \<open>i\<close> at time \<open>t\<close>.
\<close>

definition env_with :: "(string + jsval) \<Rightarrow> string \<Rightarrow> string \<Rightarrow> env" where
  "env_with answer i t =
     \<lparr>PINATA_JWT = Some ''jwt'', axios_post = (\<lambda>p. answer), uuidv4 = i, now = t,
      supabase_error = None\<rparr>"

definition pinned :: "string + jsval" where
  "pinned = Inr (JObj [(''IpfsHash'', JStr ''bafy1''), (''PinSize'', JNum 3)])"

definition example_env :: env where
  "example_env = env_with pinned ''id-1'' ''2024-01-01T00:00:00.000Z''"


definition example_evidence :: jsval where
  "example_evidence =
     JObj [(''txHash'', JStr ''0xabc''), (''tokenId'', JNum 7),
           (''metadataURI'', JStr ''ipfs://bafy1'')]"

definition example_project :: jsval where
  "example_project =
     JObj [(''projectId'', JStr ''P-1''), (''projectName'', JStr ''Gulf plot''),
           (''latitude'', JNum 0), (''longitude'', JNum 88),
           (''ecosystemType'', JStr ''mangrove''), (''implementingAgency'', JStr ''agency'')]"

text \<open>The flat-file store after three uploads, on the first, second and third of January.\<close>

definition three_uploads :: disk where
  "three_uploads =
     store (submitData (env_with pinned ''id-3'' ''2024-01-03T00:00:00.000Z'')
       (store (submitData (env_with pinned ''id-2'' ''2024-01-02T00:00:00.000Z'')
         (store (submitData (env_with pinned ''id-1'' ''2024-01-01T00:00:00.000Z'')
            NoFile example_request))
          example_request))
        example_request)"

text \<open>The remote table after the same three uploads.\<close>

definition three_rows :: table where
  "three_rows =
     store (api_submissions (env_with pinned ''id-3'' ''2024-01-03T00:00:00.000Z'')
       (store (api_submissions (env_with pinned ''id-2'' ''2024-01-02T00:00:00.000Z'')
         (store (api_submissions (env_with pinned ''id-1'' ''2024-01-01T00:00:00.000Z'')
            [] example_request))
          example_request))
        example_request)"

text \<open>The flat-file store after one upload.\<close>

definition one_upload :: disk where
  "one_upload = store (submitData example_env NoFile example_request)"

section \<open>Auxiliary notions for the proofs\<close>

text \<open>
  A text that may follow a number without being read as part of it, and a text that starts
  like a serialised value.
\<close>

definition num_delim :: "string \<Rightarrow> bool" where
  "num_delim r = (case r of [] \<Rightarrow> True
     | c # _ \<Rightarrow> \<not> is_digit c \<and> c \<noteq> CHR ''.'' \<and> c \<noteq> CHR ''e'' \<and> c \<noteq> CHR ''E'')"

definition starts_value :: "string \<Rightarrow> bool" where
  "starts_value t = (case t of [] \<Rightarrow> False
     | c # _ \<Rightarrow> \<not> is_ws c \<and> c \<noteq> CHR '']'' \<and> c \<noteq> CHR ''}'')"

text \<open>The properties that marking as minted writes, with their values, in order.\<close>

definition evidence_patch :: "jsval \<Rightarrow> (string \<times> jsval) list" where
  "evidence_patch b =
     [(''status'', JStr ''approved''), (''txHash'', get_prop b ''txHash''),
      (''tokenId'', get_prop b ''tokenId''), (''metadataURI'', get_prop b ''metadataURI'')]"

text \<open>Writing a list of properties, one after the other.\<close>

definition write_props :: "(string \<times> jsval) list \<Rightarrow> (string \<times> jsval) list \<Rightarrow> (string \<times> jsval) list" where
  "write_props kvs patch = foldl (\<lambda>kvs (k, v). set_prop kvs k v) kvs patch"

text \<open>What the remote update does to one row.\<close>

definition patch_row :: "string \<Rightarrow> jsval \<Rightarrow> jsval \<Rightarrow> jsval" where
  "patch_row i b x =
     (if get_prop x ''id'' = JStr i then apply_patch x (json_image_members (evidence_patch b))
      else x)"

section \<open>The serialiser and the parser are inverse on JSON values\<close>

subsection \<open>Numbers\<close>

lemma nat_str_simps_lt: "n < 10 \<Longrightarrow> nat_str n = [digit_char n]"
  by (subst nat_str.simps) simp

lemma nat_str_simps_ge: "\<not> n < 10 \<Longrightarrow> nat_str n = nat_str (n div 10) @ [digit_char (n mod 10)]"
  by (subst nat_str.simps) simp

lemma of_char_digit_char: "d < 10 \<Longrightarrow> (of_char (digit_char d) :: nat) = 48 + d"
  unfolding digit_char_def by (simp only: of_char_of) simp

lemma is_digit_digit_char: "d < 10 \<Longrightarrow> is_digit (digit_char d)"
  by (simp add: is_digit_def of_char_digit_char)

lemma digit_val_digit_char: "d < 10 \<Longrightarrow> digit_val (digit_char d) = d"
  by (simp add: digit_val_def of_char_digit_char)

lemma digit_char_neq0: "0 < d \<Longrightarrow> d < 10 \<Longrightarrow> digit_char d \<noteq> CHR ''0''"
proof
  assume a: "0 < d" "d < 10" "digit_char d = CHR ''0''"
  have "(of_char (digit_char d) :: nat) = 48 + d"
    using a(2) by (rule of_char_digit_char)
  moreover have "(of_char (CHR ''0'') :: nat) = 48" by simp
  ultimately show False using a(1,3) by simp
qed

lemma nat_str_digits: "c \<in> set (nat_str n) \<Longrightarrow> is_digit c"
proof (induction n rule: nat_str.induct)
  case (1 n)
  show ?case
  proof (cases "n < 10")
    case True
    with 1(2) show ?thesis by (simp add: nat_str_simps_lt is_digit_digit_char)
  next
    case False
    with 1 show ?thesis by (auto simp add: nat_str_simps_ge is_digit_digit_char)
  qed
qed

lemma nat_str_nonempty: "nat_str n \<noteq> []"
  by (subst nat_str.simps) simp

lemma nat_str_value: "foldl (\<lambda>a c. 10 * a + digit_val c) 0 (nat_str n) = n"
proof (induction n rule: nat_str.induct)
  case (1 n)
  show ?case
  proof (cases "n < 10")
    case True
    then show ?thesis by (simp add: nat_str_simps_lt digit_val_digit_char)
  next
    case False
    with 1 show ?thesis by (simp add: nat_str_simps_ge digit_val_digit_char)
  qed
qed

lemma nat_str_hd: "n \<noteq> 0 \<Longrightarrow> hd (nat_str n) \<noteq> CHR ''0''"
proof (induction n rule: nat_str.induct)
  case (1 n)
  show ?case
  proof (cases "n < 10")
    case True
    with 1(2) show ?thesis
      by (simp add: nat_str_simps_lt digit_char_neq0) 
  next
    case False
    then have "n div 10 \<noteq> 0" by simp
    with 1 False show ?thesis by (simp add: nat_str_simps_ge nat_str_nonempty)
  qed
qed

lemma parse_digits_append:
  "(\<And>c. c \<in> set ds \<Longrightarrow> is_digit c) \<Longrightarrow> (r = [] \<or> \<not> is_digit (hd r)) \<Longrightarrow>
   parse_digits acc (ds @ r) = (foldl (\<lambda>a c. 10 * a + digit_val c) acc ds, r)"
proof (induction ds arbitrary: acc)
  case Nil
  then show ?case by (cases r) auto
next
  case (Cons d ds)
  then show ?case by simp
qed


lemma parse_int_part_nat_str:
  assumes "num_delim r"
  shows "parse_int_part (nat_str n @ r) = Some (n, r)"
proof (cases "n = 0")
  case True
  have "digit_char 0 = CHR ''0''"
    by code_simp
  then have "nat_str 0 = ''0''"
    by (simp add: nat_str_simps_lt)
  with True assms show ?thesis
    by (auto simp: parse_int_part_def num_delim_def is_digit_def split: list.splits)
next
  case False
  obtain d ds where ds: "nat_str n = d # ds"
    using nat_str_nonempty [of n] by (cases "nat_str n") auto
  have d0: "d \<noteq> CHR ''0''"
    using nat_str_hd [OF False] ds by simp
  have dd: "is_digit d"
    using nat_str_digits [of d n] ds by simp
  have nd: "r = [] \<or> \<not> is_digit (hd r)"
    using assms by (cases r) (auto simp: num_delim_def)
  have "parse_digits 0 (nat_str n @ r) = (n, r)"
    using parse_digits_append [of "nat_str n" r 0] nat_str_digits [of _ n] nd
    by (simp add: nat_str_value)
  then show ?thesis
    using ds d0 dd by (simp add: parse_int_part_def)
qed

lemma parse_number_int_str:
  assumes "num_delim r"
  shows "parse_number (int_str i @ r) = Parsed (JNum i) r"
proof -
  have ds: "\<And>n. \<exists>d ds. nat_str n = d # ds \<and> is_digit d"
    using nat_str_nonempty nat_str_digits
    by (metis list.set_intros(1) neq_Nil_conv)
  have minus: "\<not> is_digit (CHR ''-'')" by (simp add: is_digit_def)
  show ?thesis
  proof (cases "i < 0")
    case True
    then show ?thesis
      using assms parse_int_part_nat_str [OF assms, of "nat (- i)"]
      by (auto simp: parse_number_def int_str_def num_delim_def split: list.splits)
  next
    case False
    obtain d ds where "nat_str (nat i) = d # ds" "is_digit d"
      using ds by blast
    then have "\<not> (case int_str i @ r of [] \<Rightarrow> False | c # _ \<Rightarrow> c = CHR ''-'')"
      using False minus by (auto simp: int_str_def)
    then show ?thesis
      using False assms parse_int_part_nat_str [OF assms, of "nat i"]
      by (auto simp: parse_number_def int_str_def num_delim_def Let_def split: list.splits)
  qed
qed


subsection \<open>Strings\<close>

lemma hex_val_hex_char: "d < 16 \<Longrightarrow> hex_val (hex_char d) = Some d"
proof -
  assume d: "d < 16"
  have "(of_char (hex_char d) :: nat) = (if d < 10 then 48 + d else 87 + d)"
    using d unfolding hex_char_def by (simp only: of_char_of split: if_splits) simp
  then show ?thesis
    using d by (simp add: hex_val_def)
qed

lemma hex_val_zero: "hex_val (CHR ''0'') = Some 0"
  by (simp add: hex_val_def)

lemma parse_chars_ctrl:
  assumes "(of_char c :: nat) < 32"
  shows "parse_chars (bslash # CHR ''u'' # CHR ''0'' # CHR ''0'' #
           hex_char (of_char c div 16) # hex_char (of_char c mod 16) # rest)
         = pmap ((#) c) (parse_chars rest)"
proof -
  let ?n = "of_char c :: nat"
  have h1: "hex_val (hex_char (?n div 16)) = Some (?n div 16)"
    using assms by (intro hex_val_hex_char) simp
  have h2: "hex_val (hex_char (?n mod 16)) = Some (?n mod 16)"
    by (intro hex_val_hex_char) simp
  have c: "char_of ?n = c" by simp
  have n: "?n div 16 * 16 + ?n mod 16 = ?n" by simp
  show ?thesis
    using assms by (simp add: h1 h2 hex_val_zero c n)
qed

lemma parse_chars_quote_char:
  "parse_chars (quote_char c @ rest) = pmap ((#) c) (parse_chars rest)"
proof -
  consider (named) "c = CHR 0x08 \<or> c = CHR 0x09 \<or> c = CHR 0x0A \<or> c = CHR 0x0C
                    \<or> c = CHR 0x0D \<or> c = dquote \<or> c = bslash"
    | (ctrl) "c \<noteq> CHR 0x08" "c \<noteq> CHR 0x09" "c \<noteq> CHR 0x0A" "c \<noteq> CHR 0x0C"
             "c \<noteq> CHR 0x0D" "c \<noteq> dquote" "c \<noteq> bslash" "(of_char c :: nat) < 32"
    | (plain) "c \<noteq> CHR 0x08" "c \<noteq> CHR 0x09" "c \<noteq> CHR 0x0A" "c \<noteq> CHR 0x0C"
             "c \<noteq> CHR 0x0D" "c \<noteq> dquote" "c \<noteq> bslash" "\<not> (of_char c :: nat) < 32"
    by blast
  then show ?thesis
  proof cases
    case named
    then show ?thesis
      by (elim disjE) (simp_all add: quote_char_def unescape_def)
  next
    case ctrl
    then show ?thesis
      using parse_chars_ctrl [of c rest] by (simp add: quote_char_def)
  next
    case plain
    then show ?thesis
      by (simp add: quote_char_def)
  qed
qed

lemma parse_chars_quoted:
  "parse_chars (concat (map quote_char s) @ dquote # r) = Parsed s r"
  by (induction s) (simp_all add: parse_chars_quote_char)


subsection \<open>White space and single parser steps\<close>

lemma skip_ws_append: "(\<And>c. c \<in> set ws \<Longrightarrow> is_ws c) \<Longrightarrow> skip_ws (ws @ t) = skip_ws t"
  by (induction ws) auto

lemma skip_ws_indent: "skip_ws (newline # spaces n @ t) = skip_ws t"
  using skip_ws_append [of "newline # spaces n" t]
  by (auto simp: is_ws_def spaces_def)

lemma parse_value_ws:
  "(\<And>c. c \<in> set ws \<Longrightarrow> is_ws c) \<Longrightarrow> parse_value (ws @ t) = parse_value t"
proof -
  assume "\<And>c. c \<in> set ws \<Longrightarrow> is_ws c"
  then have "skip_ws (ws @ t) = skip_ws t"
    by (rule skip_ws_append)
  then show ?thesis
    by (simp only: parse_value.simps [of "ws @ t"] parse_value.simps [of t])
qed

lemma parse_elems_step:
  assumes "parse_value s = Parsed v r" and "skip_ws r = c # r'"
  shows "parse_elems s =
     (if c = CHR '','' then
        (if length r' < length s then pmap ((#) v) (parse_elems r') else Malformed)
      else if c = CHR '']'' then Parsed [v] r' else Malformed)"
  using assms by (subst parse_elems.simps) simp

lemma parse_members_step:
  assumes "skip_ws s = dquote # r0" and "parse_chars r0 = Parsed k r1"
    and "skip_ws r1 = CHR '':'' # r2" and "parse_value r2 = Parsed v r3"
    and "skip_ws r3 = c # r4"
  shows "parse_members s =
     (if c = CHR '','' then
        (if length r4 < length s then pmap ((#) (k, v)) (parse_members r4) else Malformed)
      else if c = CHR ''}'' then Parsed [(k, v)] r4 else Malformed)"
  using assms by (subst parse_members.simps) simp

lemma starts_value_append: "starts_value t \<Longrightarrow> starts_value (t @ u)"
  by (cases t) (auto simp: starts_value_def)

lemma starts_value_skip: "starts_value t \<Longrightarrow> skip_ws t = t"
  by (cases t) (auto simp: starts_value_def)

lemma is_digit_not_special:
  "is_digit c \<Longrightarrow> \<not> is_ws c \<and> c \<noteq> CHR '']'' \<and> c \<noteq> CHR ''}'' \<and> c \<noteq> CHR ''n''
     \<and> c \<noteq> CHR ''t'' \<and> c \<noteq> CHR ''f'' \<and> c \<noteq> dquote \<and> c \<noteq> CHR ''['' \<and> c \<noteq> CHR ''{''"
  by (auto simp: is_digit_def is_ws_def)

lemma int_str_head:
  "\<exists>c t. int_str i = c # t \<and> (c = CHR ''-'' \<or> is_digit c)"
proof -
  have "\<exists>d ds. nat_str n = d # ds \<and> is_digit d" for n
    using nat_str_nonempty nat_str_digits
    by (metis list.set_intros(1) neq_Nil_conv)
  from this [of "nat i"] this [of "nat (- i)"] show ?thesis
    by (auto simp: int_str_def)
qed

lemma ser_head: "starts_value (SerializeJSONProperty ind v)"
proof (cases v)
  case (JNum i)
  obtain c t where "int_str i = c # t" "c = CHR ''-'' \<or> is_digit c"
    using int_str_head by blast
  with JNum show ?thesis
    using is_digit_not_special [of c] by (auto simp: starts_value_def is_ws_def)
qed (auto simp: starts_value_def is_ws_def QuoteJSONString_def Let_def)

lemma ser_arr_head: "xs \<noteq> [] \<Longrightarrow> starts_value (SerializeJSONArray ind xs)"
proof (cases xs)
  case Nil
  assume "xs \<noteq> []"
  with Nil show ?thesis by simp
next
  case (Cons x ys)
  then show ?thesis
    using ser_head [of ind x] by (cases ys) (auto intro: starts_value_append)
qed

lemma ser_obj_head:
  "kvs \<noteq> [] \<Longrightarrow> is_json_members kvs \<Longrightarrow> \<exists>t. SerializeJSONObject ind False kvs = dquote # t"
  by (cases kvs) (auto simp: QuoteJSONString_def)

lemma ser_obj_started:
  "kvs \<noteq> [] \<Longrightarrow> is_json_members kvs \<Longrightarrow>
   SerializeJSONObject ind True kvs
     = '','' @ newline # spaces ind @ SerializeJSONObject ind False kvs"
  by (cases kvs) auto

lemma skip_ws_spaces [simp]: "skip_ws (spaces n @ t) = skip_ws t"
  by (induction n) (simp_all add: spaces_def is_ws_def)

lemma is_ws_newline [simp]: "is_ws newline"
  by (simp add: is_ws_def)

lemma parse_value_null: "parse_value (''null'' @ r) = Parsed JNull r"
  by (subst parse_value.simps) (simp add: is_ws_def)

lemma parse_value_true: "parse_value (''true'' @ r) = Parsed (JBool True) r"
  by (subst parse_value.simps) (simp add: is_ws_def)

lemma parse_value_false: "parse_value (''false'' @ r) = Parsed (JBool False) r"
  by (subst parse_value.simps) (simp add: is_ws_def)

lemma parse_value_str: "parse_value (QuoteJSONString s @ r) = Parsed (JStr s) r"
  by (subst parse_value.simps)
     (simp add: QuoteJSONString_def is_ws_def parse_chars_quoted)

lemma parse_value_num:
  assumes "num_delim r"
  shows "parse_value (int_str i @ r) = Parsed (JNum i) r"
proof -
  obtain c t where ct: "int_str i = c # t" "c = CHR ''-'' \<or> is_digit c"
    using int_str_head by blast
  have ne: "\<not> is_ws c \<and> c \<noteq> CHR ''n'' \<and> c \<noteq> CHR ''t'' \<and> c \<noteq> CHR ''f''
    \<and> c \<noteq> dquote \<and> c \<noteq> CHR ''['' \<and> c \<noteq> CHR ''{''"
  proof (cases "c = CHR ''-''")
    case True
    then show ?thesis by (simp add: is_ws_def)
  next
    case False
    with ct(2) have "is_digit c" by simp
    from is_digit_not_special [OF this] show ?thesis by blast
  qed
  have "parse_value (c # t @ r) = parse_number (c # t @ r)"
    using ne ct(2) by (subst parse_value.simps) simp
  then show ?thesis
    using parse_number_int_str [OF assms, of i] ct(1) by simp
qed

lemma parse_value_empty_arr: "parse_value (''[]'' @ r) = Parsed (JArr []) r"
  by (subst parse_value.simps) (simp add: is_ws_def)

lemma parse_value_empty_obj: "parse_value (''{}'' @ r) = Parsed (JObj []) r"
  by (subst parse_value.simps) (simp add: is_ws_def)

lemma parse_value_arr:
  assumes "starts_value t" 
  shows "parse_value (CHR ''['' # newline # spaces n @ t) = pmap JArr (parse_elems t)"
proof -
  obtain d t' where t: "t = d # t'" "\<not> is_ws d" "d \<noteq> CHR '']''"
    using assms by (cases t) (auto simp: starts_value_def)
  have "skip_ws (newline # spaces n @ t) = d # t'"
    using t by simp
  then show ?thesis
    using t by (subst parse_value.simps) (simp add: is_ws_def)
qed

lemma parse_value_obj:
  shows "parse_value (CHR ''{'' # newline # spaces n @ dquote # t)
         = pmap (\<lambda>ms. JObj (object_of_members ms)) (parse_members (dquote # t))"
proof -
  have "skip_ws (newline # spaces n @ dquote # t) = dquote # t"
    by (simp add: is_ws_def)
  then show ?thesis
    by (subst parse_value.simps) (simp add: is_ws_def)
qed

subsection \<open>Values\<close>

lemma update_fresh: "k \<notin> fst ` set acc \<Longrightarrow> AList.update k v acc = acc @ [(k, v)]"
  by (induction acc) auto

lemma object_of_members_gen:
  "distinct (map fst (acc @ ms)) \<Longrightarrow>
   foldl (\<lambda>acc (k, v). AList.update k v acc) acc ms = acc @ ms"
proof (induction ms arbitrary: acc)
  case Nil
  then show ?case by simp
next
  case (Cons m ms)
  obtain k v where m: "m = (k, v)" by (cases m)
  from Cons.prems m have "k \<notin> fst ` set acc" by auto
  then have "AList.update k v acc = acc @ [(k, v)]" by (rule update_fresh)
  moreover from Cons.prems m have "distinct (map fst ((acc @ [(k, v)]) @ ms))" by simp
  ultimately show ?case
    using Cons.IH [of "acc @ [(k, v)]"] m by simp
qed

lemma object_of_members_distinct: "distinct (map fst ms) \<Longrightarrow> object_of_members ms = ms"
  using object_of_members_gen [of "[]" ms] by (simp add: object_of_members_def)

lemma num_delim_simps [simp]:
  "num_delim []" "num_delim (newline # t)" "num_delim (CHR '','' # t)"
  by (simp_all add: num_delim_def is_digit_def)

lemma parse_ser:
  "is_json v \<Longrightarrow> num_delim r \<Longrightarrow> parse_value (SerializeJSONProperty ind v @ r) = Parsed v r"
  "is_json_list xs \<Longrightarrow> xs \<noteq> [] \<Longrightarrow> (\<And>c. c \<in> set ws \<Longrightarrow> is_ws c) \<Longrightarrow>
     parse_elems (ws @ SerializeJSONArray ind xs @ newline # spaces k @ CHR '']'' # r) = Parsed xs r"
  "is_json_members kvs \<Longrightarrow> kvs \<noteq> [] \<Longrightarrow> (\<And>c. c \<in> set ws \<Longrightarrow> is_ws c) \<Longrightarrow>
     parse_members (ws @ SerializeJSONObject ind False kvs @ newline # spaces k @ CHR ''}'' # r)
       = Parsed kvs r"
proof (induction v and xs and kvs arbitrary: r ind and r ind ws k and r ind ws k
       rule: is_json_is_json_list_is_json_members.induct)
  case 1
  then show ?case by simp
next
  case 2
  then show ?case using parse_value_null by simp
next
  case (3 b)
  then show ?case using parse_value_true parse_value_false by simp
next
  case (4 n)
  then show ?case using parse_value_num by simp
next
  case (5 s)
  then show ?case using parse_value_str by simp
next
  case (6 xs)
  show ?case
  proof (cases "xs = []")
    case True
    then show ?thesis using parse_value_empty_arr by simp
  next
    case False
    have sv: "starts_value (SerializeJSONArray (ind + 2) xs @ newline # spaces ind @ CHR '']'' # r)"
      using False by (intro starts_value_append ser_arr_head)
    have "parse_elems ([] @ SerializeJSONArray (ind + 2) xs @ newline # spaces ind @ CHR '']'' # r)
          = Parsed xs r"
      using 6 False by (intro "6.IH") simp_all
    then show ?thesis
      using False parse_value_arr [OF sv, of "ind + 2"] by simp
  qed
next
  case (7 kvs)
  show ?case
  proof (cases "kvs = []")
    case True
    then show ?thesis using parse_value_empty_obj by simp
  next
    case False
    from 7 have ok: "is_json_members kvs" and dist: "distinct (map fst kvs)" by simp_all
    obtain t where t: "SerializeJSONObject (ind + 2) False kvs = dquote # t"
      using ser_obj_head [OF False ok] by blast
    have "parse_members ([] @ SerializeJSONObject (ind + 2) False kvs
            @ newline # spaces ind @ CHR ''}'' # r) = Parsed kvs r"
      using ok False by (intro "7.IH") simp_all
    then have "parse_members (dquote # t @ newline # spaces ind @ CHR ''}'' # r) = Parsed kvs r"
      using t by simp
    then show ?thesis
      using t parse_value_obj [of "ind + 2" "t @ newline # spaces ind @ CHR ''}'' # r"]
        object_of_members_distinct [OF dist]
      by (simp add: Let_def)
  qed
next
  case 8
  then show ?case by simp
next
  case (9 x xs)
  then have x: "is_json x" and xs: "is_json_list xs" by simp_all
  show ?case
  proof (cases xs)
    case Nil
    let ?s = "ws @ SerializeJSONProperty ind x @ newline # spaces k @ CHR '']'' # r"
    have pv: "parse_value ?s = Parsed x (newline # spaces k @ CHR '']'' # r)"
      using parse_value_ws [of ws] "9.prems"(3) "9.IH"(1) [OF x, of "newline # spaces k @ CHR '']'' # r" ind]
      by simp
    have sk: "skip_ws (newline # spaces k @ CHR '']'' # r) = CHR '']'' # r"
      by (simp add: is_ws_def)
    show ?thesis
      using parse_elems_step [OF pv sk] Nil by simp
  next
    case (Cons y ys)
    let ?tail = "newline # spaces ind @ SerializeJSONArray ind (y # ys) @ newline # spaces k @ CHR '']'' # r"
    let ?s = "ws @ SerializeJSONProperty ind x @ CHR '','' # ?tail"
    have pv: "parse_value ?s = Parsed x (CHR '','' # ?tail)"
      using parse_value_ws [of ws] "9.prems"(3) "9.IH"(1) [OF x, of "CHR '','' # ?tail" ind]
      by simp
    have sk: "skip_ws (CHR '','' # ?tail) = CHR '','' # ?tail"
      by (simp add: is_ws_def)
    have len: "length ?tail < length ?s" by simp
    have "parse_elems ((newline # spaces ind) @ SerializeJSONArray ind xs @ newline # spaces k @ CHR '']'' # r)
          = Parsed xs r"
      using xs Cons by (intro "9.IH"(2)) (auto simp: spaces_def is_ws_def)
    then have "parse_elems ?tail = Parsed xs r"
      using Cons by simp
    then show ?thesis
      using parse_elems_step [OF pv sk] len Cons by simp
  qed
next
  case 10
  then show ?case by simp
next
  case (11 key v kvs)
  then have v: "is_json v" and kvs: "is_json_members kvs" by simp_all
  from v have vu: "v \<noteq> JUndefined" by auto
  show ?case
  proof (cases "kvs = []")
    case True
    let ?r3 = "newline # spaces k @ CHR ''}'' # r"
    let ?r2 = "CHR '' '' # SerializeJSONProperty ind v @ ?r3"
    let ?r0 = "concat (map quote_char key) @ dquote # CHR '':'' # ?r2"
    let ?s = "ws @ dquote # ?r0"
    have s0: "skip_ws ?s = dquote # ?r0"
      using skip_ws_append [of ws] "11.prems"(3) by (simp add: is_ws_def)
    have pc: "parse_chars ?r0 = Parsed key (CHR '':'' # ?r2)"
      by (rule parse_chars_quoted)
    have s1: "skip_ws (CHR '':'' # ?r2) = CHR '':'' # ?r2"
      by (simp add: is_ws_def)
    have pv: "parse_value ?r2 = Parsed v ?r3"
      using parse_value_ws [of "[CHR '' '']" "SerializeJSONProperty ind v @ ?r3"]
        "11.IH"(1) [OF v, of ?r3 ind]
      by (simp add: is_ws_def)
    have s3: "skip_ws ?r3 = CHR ''}'' # r"
      by (simp add: is_ws_def)
    show ?thesis
      using parse_members_step [OF s0 pc s1 pv s3] True vu
      by (simp add: QuoteJSONString_def)
  next
    case False
    let ?r4 = "newline # spaces ind @ SerializeJSONObject ind False kvs @ newline # spaces k @ CHR ''}'' # r"
    let ?r3 = "CHR '','' # ?r4"
    let ?r2 = "CHR '' '' # SerializeJSONProperty ind v @ ?r3"
    let ?r0 = "concat (map quote_char key) @ dquote # CHR '':'' # ?r2"
    let ?s = "ws @ dquote # ?r0"
    have s0: "skip_ws ?s = dquote # ?r0"
      using skip_ws_append [of ws] "11.prems"(3) by (simp add: is_ws_def)
    have pc: "parse_chars ?r0 = Parsed key (CHR '':'' # ?r2)"
      by (rule parse_chars_quoted)
    have s1: "skip_ws (CHR '':'' # ?r2) = CHR '':'' # ?r2"
      by (simp add: is_ws_def)
    have pv: "parse_value ?r2 = Parsed v ?r3"
      using parse_value_ws [of "[CHR '' '']" "SerializeJSONProperty ind v @ ?r3"]
        "11.IH"(1) [OF v, of ?r3 ind]
      by (simp add: is_ws_def)
    have s3: "skip_ws ?r3 = CHR '','' # ?r4"
      by (simp add: is_ws_def)
    have len: "length ?r4 < length ?s" by simp
    have "parse_members ((newline # spaces ind) @ SerializeJSONObject ind False kvs
            @ newline # spaces k @ CHR ''}'' # r) = Parsed kvs r"
      using kvs False by (intro "11.IH"(2)) (auto simp: spaces_def is_ws_def)
    then have rec: "parse_members ?r4 = Parsed kvs r" by simp
    show ?thesis
      using parse_members_step [OF s0 pc s1 pv s3] len rec vu ser_obj_started [OF False kvs, of ind]
      by (simp add: QuoteJSONString_def)
  qed
qed

subsection \<open>Serialising, then parsing\<close>

lemma json_image_id:
  "is_json v \<Longrightarrow> json_image v = v"
  "is_json_list xs \<Longrightarrow> json_image_list xs = xs"
  "is_json_members kvs \<Longrightarrow> json_image_members kvs = kvs"
  by (induction v and xs and kvs rule: is_json_is_json_list_is_json_members.induct) auto

lemma is_json_wf:
  "is_json v \<Longrightarrow> wf_val v"
  "is_json_list xs \<Longrightarrow> wf_list xs"
  "is_json_members kvs \<Longrightarrow> wf_members kvs"
  by (induction v and xs and kvs rule: is_json_is_json_list_is_json_members.induct) auto

lemma json_image_members_keys:
  "(k, v) \<in> set (json_image_members kvs) \<Longrightarrow> k \<in> fst ` set kvs"
  by (induction kvs) (force split: if_splits)+

lemma json_image_members_distinct:
  "distinct (map fst kvs) \<Longrightarrow> distinct (map fst (json_image_members kvs))"
proof (induction kvs)
  case Nil
  then show ?case by simp
next
  case (Cons p kvs)
  obtain k v where p: "p = (k, v)" by (cases p)
  show ?case
    using Cons json_image_members_keys [of k _ kvs] p by auto
qed

lemma json_image_is_json:
  "wf_val v \<Longrightarrow> is_json (json_image v)"
  "wf_list xs \<Longrightarrow> is_json_list (json_image_list xs)"
  "wf_members kvs \<Longrightarrow> is_json_members (json_image_members kvs)"
  by (induction v and xs and kvs rule: wf_val_wf_list_wf_members.induct)
     (auto simp: json_image_members_distinct)

lemma ser_json_image:
  "SerializeJSONProperty ind (json_image v) = SerializeJSONProperty ind v"
  "SerializeJSONArray ind (json_image_list xs) = SerializeJSONArray ind xs"
  "SerializeJSONObject ind started (json_image_members kvs) = SerializeJSONObject ind started kvs"
proof (induction ind v and ind xs and ind started kvs
       rule: SerializeJSONProperty_SerializeJSONArray_SerializeJSONObject.induct)
  case (6 ind xs)
  then show ?case by (cases xs) auto
next
  case (12 ind started k v kvs)
  have "json_image v \<noteq> JUndefined" by (cases v) auto
  with 12 show ?case by auto
qed auto

lemma JSON_roundtrip:
  assumes "wf_val v" and "v \<noteq> JUndefined"
  shows "\<exists>t. JSON_stringify v = Some t \<and> JSON_parse t = Inr (json_image v)"
proof -
  have "parse_value (SerializeJSONProperty 0 (json_image v) @ []) = Parsed (json_image v) []"
    using assms(1) by (intro parse_ser(1) json_image_is_json) simp_all
  then have "parse_value (SerializeJSONProperty 0 v) = Parsed (json_image v) []"
    by (simp add: ser_json_image)
  then show ?thesis
    using assms(2) by (simp add: JSON_stringify_def JSON_parse_def)
qed


lemma pmap_Parsed_iff: "pmap f p = Parsed x r \<longleftrightarrow> (\<exists>y. p = Parsed y r \<and> x = f y)"
  by (cases p) auto

lemma expect_Parsed: "expect cs v s = Parsed v' r \<Longrightarrow> v' = v"
  by (induction cs v s rule: expect.induct) (auto split: if_splits)

lemma parse_number_Parsed: "parse_number s = Parsed v r \<Longrightarrow> \<exists>n. v = JNum n"
  by (auto simp: parse_number_def Let_def split: option.splits list.splits if_splits)

lemma is_json_members_update:
  "is_json v \<Longrightarrow> is_json_members acc \<Longrightarrow> is_json_members (AList.update k v acc)"
  by (induction acc) auto

lemma object_of_members_is_json_gen:
  "is_json_members ms \<Longrightarrow> is_json_members acc \<Longrightarrow> distinct (map fst acc) \<Longrightarrow>
   is_json_members (foldl (\<lambda>acc (k, v). AList.update k v acc) acc ms)
   \<and> distinct (map fst (foldl (\<lambda>acc (k, v). AList.update k v acc) acc ms))"
proof (induction ms arbitrary: acc)
  case Nil
  then show ?case by simp
next
  case (Cons m ms)
  obtain k v where m: "m = (k, v)" by (cases m)
  from Cons.prems m have "is_json_members (AList.update k v acc)"
    by (simp add: is_json_members_update)
  moreover from Cons.prems have "distinct (map fst (AList.update k v acc))"
    by (simp add: distinct_update)
  moreover from Cons.prems m have "is_json_members ms" by simp
  ultimately show ?case
    using Cons.IH [of "AList.update k v acc"] m by simp
qed

lemma object_of_members_is_json:
  "is_json_members ms \<Longrightarrow> is_json (JObj (object_of_members ms))"
  using object_of_members_is_json_gen [of ms "[]"] by (simp add: object_of_members_def)

lemma parse_is_json:
  "parse_value s = Parsed v r \<Longrightarrow> is_json v"
  "parse_elems s = Parsed xs r \<Longrightarrow> is_json_list xs"
  "parse_members s = Parsed ms r \<Longrightarrow> is_json_members ms"
proof (induction s and s and s arbitrary: v r and xs r and ms r
       rule: parse_value_parse_elems_parse_members.induct)
  case (1 s)
  show ?case
  proof (cases "skip_ws s")
    case Nil
    with "1.prems" show ?thesis
      by (subst (asm) parse_value.simps) simp
  next
    case (Cons c r0)
    note sk = Cons
    consider (lit) "c = CHR ''n'' \<or> c = CHR ''t'' \<or> c = CHR ''f''"
      | (str) "c = dquote"
      | (arr) "c = CHR ''[''"
      | (obj) "c = CHR ''{''"
      | (num) "c \<noteq> CHR ''n''" "c \<noteq> CHR ''t''" "c \<noteq> CHR ''f''" "c \<noteq> dquote"
              "c \<noteq> CHR ''[''" "c \<noteq> CHR ''{''"
      by blast
    then show ?thesis
    proof cases
      case lit
      then consider "c = CHR ''n''" | "c = CHR ''t''" | "c = CHR ''f''"
        by blast
      then show ?thesis
      proof cases
        case 1
        with "1.prems" sk have "expect ''ull'' JNull r0 = Parsed v r"
          by (subst (asm) parse_value.simps) simp
        from expect_Parsed [OF this] show ?thesis by simp
      next
        case 2
        with "1.prems" sk have "expect ''rue'' (JBool True) r0 = Parsed v r"
          by (subst (asm) parse_value.simps) simp
        from expect_Parsed [OF this] show ?thesis by simp
      next
        case 3
        with "1.prems" sk have "expect ''alse'' (JBool False) r0 = Parsed v r"
          by (subst (asm) parse_value.simps) simp
        from expect_Parsed [OF this] show ?thesis by simp
      qed
    next
      case str
      with "1.prems" sk show ?thesis
        by (subst (asm) parse_value.simps) (auto simp: pmap_Parsed_iff)
    next
      case arr
      show ?thesis
      proof (cases "skip_ws r0")
        case Nil
        with "1.prems" sk arr show ?thesis
          by (subst (asm) parse_value.simps) simp
      next
        case (Cons d r')
        show ?thesis
        proof (cases "d = CHR '']''")
          case True
          with "1.prems" sk arr Cons show ?thesis
            by (subst (asm) parse_value.simps) auto
        next
          case False
          with "1.prems" sk arr Cons have "pmap JArr (parse_elems (d # r')) = Parsed v r"
            by (subst (asm) parse_value.simps) simp
          then obtain xs where xs: "parse_elems (d # r') = Parsed xs r" "v = JArr xs"
            by (auto simp: pmap_Parsed_iff)
          have "is_json_list xs"
            using "1.IH"(1) [OF sk _ _ _ _ arr Cons False xs(1)] arr by simp
          with xs show ?thesis by simp
        qed
      qed
    next
      case obj
      show ?thesis
      proof (cases "skip_ws r0")
        case Nil
        with "1.prems" sk obj show ?thesis
          by (subst (asm) parse_value.simps) simp
      next
        case (Cons d r')
        show ?thesis
        proof (cases "d = CHR ''}''")
          case True
          with "1.prems" sk obj Cons show ?thesis
            by (subst (asm) parse_value.simps) auto
        next
          case False
          with "1.prems" sk obj Cons
          have "pmap (\<lambda>ms. JObj (object_of_members ms)) (parse_members (d # r')) = Parsed v r"
            by (subst (asm) parse_value.simps) simp
          then obtain ms where ms: "parse_members (d # r') = Parsed ms r"
              "v = JObj (object_of_members ms)"
            by (auto simp: pmap_Parsed_iff)
          have "is_json_members ms"
            using "1.IH"(2) [OF sk _ _ _ _ _ obj Cons False ms(1)] obj by simp
          with ms show ?thesis
            using object_of_members_is_json by simp
        qed
      qed
    next
      case num
      with "1.prems" sk have "parse_number (c # r0) = Parsed v r"
        by (subst (asm) parse_value.simps) (simp split: if_splits)
      then show ?thesis
        by (auto dest: parse_number_Parsed)
    qed
  qed
next
  case (2 s)
  from "2.prems" obtain x r1 where pv: "parse_value s = Parsed x r1"
    by (subst (asm) parse_elems.simps) (auto split: presult.splits)
  have x: "is_json x" using "2.IH"(1) [OF pv] .
  show ?case
  proof (cases "skip_ws r1")
    case Nil
    with "2.prems" pv show ?thesis
      by (subst (asm) parse_elems.simps) simp
  next
    case (Cons c r')
    show ?thesis
    proof (cases "c = CHR '',''")
      case True
      with "2.prems" pv Cons have len: "length r' < length s"
        and "pmap ((#) x) (parse_elems r') = Parsed xs r"
        by (subst (asm) parse_elems.simps, simp split: if_splits)+
      then obtain ys where ys: "parse_elems r' = Parsed ys r" "xs = x # ys"
        by (auto simp: pmap_Parsed_iff)
      have "is_json_list ys"
        using "2.IH"(2) [OF pv Cons True len ys(1)] .
      with x ys show ?thesis by simp
    next
      case False
      with "2.prems" pv Cons have "xs = [x]"
        by (subst (asm) parse_elems.simps) (simp split: if_splits)
      with x show ?thesis by simp
    qed
  qed
next
  case (3 s)
  from "3.prems" obtain q r0 where sk: "skip_ws s = q # r0"
    by (subst (asm) parse_members.simps) (auto split: list.splits)
  from "3.prems" sk have q: "\<not> q \<noteq> dquote"
    by (subst (asm) parse_members.simps) (auto split: if_splits)
  from "3.prems" sk q obtain k r1 where pc: "parse_chars r0 = Parsed k r1"
    by (subst (asm) parse_members.simps) (auto split: presult.splits)
  from "3.prems" sk q pc obtain col r2 where s1: "skip_ws r1 = col # r2"
    by (subst (asm) parse_members.simps) (auto split: list.splits)
  from "3.prems" sk q pc s1 have col: "\<not> col \<noteq> CHR '':''"
    by (subst (asm) parse_members.simps) (auto split: if_splits)
  from "3.prems" sk q pc s1 col obtain x r3 where pv: "parse_value r2 = Parsed x r3"
    by (subst (asm) parse_members.simps) (auto split: presult.splits)
  have x: "is_json x"
    using "3.IH"(1) [OF sk q pc s1 col pv] .
  from "3.prems" sk q pc s1 col pv obtain c r4 where s3: "skip_ws r3 = c # r4"
    by (subst (asm) parse_members.simps) (auto split: list.splits)
  show ?case
  proof (cases "c = CHR '',''")
    case True
    with "3.prems" sk q pc s1 col pv s3 have len: "length r4 < length s"
      and "pmap ((#) (k, x)) (parse_members r4) = Parsed ms r"
      by (subst (asm) parse_members.simps, simp split: if_splits)+
    then obtain ys where ys: "parse_members r4 = Parsed ys r" "ms = (k, x) # ys"
      by (auto simp: pmap_Parsed_iff)
    have "is_json_members ys"
      using "3.IH"(2) [OF sk q pc s1 col pv s3 True len ys(1)] .
    with x ys show ?thesis by simp
  next
    case False
    with "3.prems" sk q pc s1 col pv s3 have "ms = [(k, x)]"
      by (subst (asm) parse_members.simps) (simp split: if_splits)
    with x show ?thesis by simp
  qed
qed

lemma JSON_parse_is_json: "JSON_parse t = Inr v \<Longrightarrow> is_json v"
  by (auto simp: JSON_parse_def split: presult.splits if_splits dest: parse_is_json(1))

subsection \<open>The parser consumes what it reads\<close>

lemma skip_ws_length: "length (skip_ws s) \<le> length s"
  by (induction s) auto

lemma skip_ws_Cons_length: "skip_ws s = c # r \<Longrightarrow> length r < length s"
  using skip_ws_length [of s] by simp

lemma parse_chars_length: "parse_chars s = Parsed x r \<Longrightarrow> length r < length s"
  by (induction s arbitrary: x rule: parse_chars.induct)
     (fastforce simp: pmap_Parsed_iff Let_def split: if_splits list.splits option.splits)+

lemma expect_length: "expect cs v s = Parsed v' r \<Longrightarrow> length r \<le> length s"
  by (induction cs v s rule: expect.induct) (auto split: if_splits)

lemma parse_digits_length: "parse_digits acc s = (n, r) \<Longrightarrow> length r \<le> length s"
  by (induction s arbitrary: acc) (fastforce split: if_splits)+

lemma parse_int_part_length: "parse_int_part s = Some (n, r) \<Longrightarrow> length r < length s"
proof (cases s)
  case Nil
  assume "parse_int_part s = Some (n, r)"
  with Nil show ?thesis by (simp add: parse_int_part_def)
next
  case (Cons d s')
  assume a: "parse_int_part s = Some (n, r)"
  show ?thesis
  proof (cases "d = CHR ''0''")
    case True
    with a Cons show ?thesis
      by (auto simp: parse_int_part_def split: if_splits list.splits)
  next
    case False
    with a Cons have "is_digit d" "parse_digits 0 (d # s') = (n, r)"
      by (auto simp: parse_int_part_def split: if_splits)
    then have "parse_digits (10 * 0 + digit_val d) s' = (n, r)" by simp
    from parse_digits_length [OF this] Cons show ?thesis by simp
  qed
qed

lemma parse_number_length: "parse_number s = Parsed v r \<Longrightarrow> length r < length s"
proof -
  assume a: "parse_number s = Parsed v r"
  let ?s1 = "if (case s of [] \<Rightarrow> False | c # _ \<Rightarrow> c = CHR ''-'') then tl s else s"
  from a obtain n where "parse_int_part ?s1 = Some (n, r)"
    by (auto simp: parse_number_def Let_def split: option.splits list.splits if_splits)
  from parse_int_part_length [OF this] have "length r < length ?s1" .
  moreover have "length ?s1 \<le> length s" by simp
  ultimately show ?thesis by simp
qed

lemma parse_length:
  "parse_value s = Parsed v r \<Longrightarrow> length r < length s"
  "parse_elems s = Parsed xs r \<Longrightarrow> length r < length s"
  "parse_members s = Parsed ms r \<Longrightarrow> length r < length s"
proof (induction s and s and s arbitrary: v r and xs r and ms r
       rule: parse_value_parse_elems_parse_members.induct)
  case (1 s)
  show ?case
  proof (cases "skip_ws s")
    case Nil
    with "1.prems" show ?thesis
      by (subst (asm) parse_value.simps) simp
  next
    case (Cons c r0)
    note sk = Cons
    note l0 = skip_ws_Cons_length [OF sk]
    consider (lit) "c = CHR ''n'' \<or> c = CHR ''t'' \<or> c = CHR ''f''"
      | (str) "c = dquote"
      | (arr) "c = CHR ''[''"
      | (obj) "c = CHR ''{''"
      | (num) "c \<noteq> CHR ''n''" "c \<noteq> CHR ''t''" "c \<noteq> CHR ''f''" "c \<noteq> dquote"
              "c \<noteq> CHR ''[''" "c \<noteq> CHR ''{''"
      by blast
    then show ?thesis
    proof cases
      case lit
      then consider "c = CHR ''n''" | "c = CHR ''t''" | "c = CHR ''f''"
        by blast
      then show ?thesis
      proof cases
        case 1
        with "1.prems" sk have "expect ''ull'' JNull r0 = Parsed v r"
          by (subst (asm) parse_value.simps) simp
        from expect_length [OF this] l0 show ?thesis by simp
      next
        case 2
        with "1.prems" sk have "expect ''rue'' (JBool True) r0 = Parsed v r"
          by (subst (asm) parse_value.simps) simp
        from expect_length [OF this] l0 show ?thesis by simp
      next
        case 3
        with "1.prems" sk have "expect ''alse'' (JBool False) r0 = Parsed v r"
          by (subst (asm) parse_value.simps) simp
        from expect_length [OF this] l0 show ?thesis by simp
      qed
    next
      case str
      with "1.prems" sk obtain x where "parse_chars r0 = Parsed x r"
        by (subst (asm) parse_value.simps) (auto simp: pmap_Parsed_iff)
      from parse_chars_length [OF this] l0 show ?thesis by simp
    next
      case arr
      show ?thesis
      proof (cases "skip_ws r0")
        case Nil
        with "1.prems" sk arr show ?thesis
          by (subst (asm) parse_value.simps) simp
      next
        case (Cons d r')
        note l1 = skip_ws_Cons_length [OF Cons]
        show ?thesis
        proof (cases "d = CHR '']''")
          case True
          with "1.prems" sk arr Cons have "r = r'"
            by (subst (asm) parse_value.simps) auto
          with l0 l1 show ?thesis by simp
        next
          case False
          with "1.prems" sk arr Cons have "pmap JArr (parse_elems (d # r')) = Parsed v r"
            by (subst (asm) parse_value.simps) simp
          then obtain xs where xs: "parse_elems (d # r') = Parsed xs r"
            by (auto simp: pmap_Parsed_iff)
          have "length r < length (d # r')"
            using "1.IH"(1) [OF sk _ _ _ _ arr Cons False xs] arr by simp
          with l0 l1 show ?thesis by simp
        qed
      qed
    next
      case obj
      show ?thesis
      proof (cases "skip_ws r0")
        case Nil
        with "1.prems" sk obj show ?thesis
          by (subst (asm) parse_value.simps) simp
      next
        case (Cons d r')
        note l1 = skip_ws_Cons_length [OF Cons]
        show ?thesis
        proof (cases "d = CHR ''}''")
          case True
          with "1.prems" sk obj Cons have "r = r'"
            by (subst (asm) parse_value.simps) auto
          with l0 l1 show ?thesis by simp
        next
          case False
          with "1.prems" sk obj Cons
          have "pmap (\<lambda>ms. JObj (object_of_members ms)) (parse_members (d # r')) = Parsed v r"
            by (subst (asm) parse_value.simps) simp
          then obtain ms where ms: "parse_members (d # r') = Parsed ms r"
            by (auto simp: pmap_Parsed_iff)
          have "length r < length (d # r')"
            using "1.IH"(2) [OF sk _ _ _ _ _ obj Cons False ms] obj by simp
          with l0 l1 show ?thesis by simp
        qed
      qed
    next
      case num
      with "1.prems" sk have "parse_number (c # r0) = Parsed v r"
        by (subst (asm) parse_value.simps) (simp split: if_splits)
      from parse_number_length [OF this] l0 show ?thesis by simp
    qed
  qed
next
  case (2 s)
  from "2.prems" obtain x r1 where pv: "parse_value s = Parsed x r1"
    by (subst (asm) parse_elems.simps) (auto split: presult.splits)
  have l1: "length r1 < length s" using "2.IH"(1) [OF pv] .
  show ?case
  proof (cases "skip_ws r1")
    case Nil
    with "2.prems" pv show ?thesis
      by (subst (asm) parse_elems.simps) simp
  next
    case (Cons c r')
    note l2 = skip_ws_Cons_length [OF Cons]
    show ?thesis
    proof (cases "c = CHR '',''")
      case True
      with "2.prems" pv Cons have len: "length r' < length s"
        and "pmap ((#) x) (parse_elems r') = Parsed xs r"
        by (subst (asm) parse_elems.simps, simp split: if_splits)+
      then obtain ys where ys: "parse_elems r' = Parsed ys r"
        by (auto simp: pmap_Parsed_iff)
      have "length r < length r'"
        using "2.IH"(2) [OF pv Cons True len ys] .
      with len show ?thesis by simp
    next
      case False
      with "2.prems" pv Cons have "r = r'"
        by (subst (asm) parse_elems.simps) (simp split: if_splits)
      with l1 l2 show ?thesis by simp
    qed
  qed
next
  case (3 s)
  from "3.prems" obtain q r0 where sk: "skip_ws s = q # r0"
    by (subst (asm) parse_members.simps) (auto split: list.splits)
  from "3.prems" sk have q: "\<not> q \<noteq> dquote"
    by (subst (asm) parse_members.simps) (auto split: if_splits)
  from "3.prems" sk q obtain k r1 where pc: "parse_chars r0 = Parsed k r1"
    by (subst (asm) parse_members.simps) (auto split: presult.splits)
  from "3.prems" sk q pc obtain col r2 where s1: "skip_ws r1 = col # r2"
    by (subst (asm) parse_members.simps) (auto split: list.splits)
  from "3.prems" sk q pc s1 have col: "\<not> col \<noteq> CHR '':''"
    by (subst (asm) parse_members.simps) (auto split: if_splits)
  from "3.prems" sk q pc s1 col obtain x r3 where pv: "parse_value r2 = Parsed x r3"
    by (subst (asm) parse_members.simps) (auto split: presult.splits)
  have l3: "length r3 < length s"
    using "3.IH"(1) [OF sk q pc s1 col pv] skip_ws_Cons_length [OF sk]
      parse_chars_length [OF pc] skip_ws_Cons_length [OF s1]
    by simp
  from "3.prems" sk q pc s1 col pv obtain c r4 where s3: "skip_ws r3 = c # r4"
    by (subst (asm) parse_members.simps) (auto split: list.splits)
  note l4 = skip_ws_Cons_length [OF s3]
  show ?case
  proof (cases "c = CHR '',''")
    case True
    with "3.prems" sk q pc s1 col pv s3 have len: "length r4 < length s"
      and "pmap ((#) (k, x)) (parse_members r4) = Parsed ms r"
      by (subst (asm) parse_members.simps, simp split: if_splits)+
    then obtain ys where ys: "parse_members r4 = Parsed ys r"
      by (auto simp: pmap_Parsed_iff)
    have "length r < length r4"
      using "3.IH"(2) [OF sk q pc s1 col pv s3 True len ys] .
    with len show ?thesis by simp
  next
    case False
    with "3.prems" sk q pc s1 col pv s3 have "r = r4"
      by (subst (asm) parse_members.simps) (simp split: if_splits)
    with l3 l4 show ?thesis by simp
  qed
qed

text \<open>
  So the two length tests in the parser never fail: they serve the termination proof only.
\<close>

lemma parse_elems_unguarded:
  "parse_elems s =
     (case parse_value s of
        Parsed v r \<Rightarrow>
          (case skip_ws r of
             [] \<Rightarrow> Malformed
           | c # r' \<Rightarrow>
               if c = CHR '','' then pmap ((#) v) (parse_elems r')
               else if c = CHR '']'' then Parsed [v] r'
               else Malformed)
      | Malformed \<Rightarrow> Malformed
      | Unsupported \<Rightarrow> Unsupported)"
proof (cases "parse_value s")
  case (Parsed v r)
  show ?thesis
  proof (cases "skip_ws r")
    case Nil
    with Parsed show ?thesis by (subst parse_elems.simps) simp
  next
    case (Cons c r')
    have "length r' < length s"
      using parse_length(1) [OF Parsed] skip_ws_Cons_length [OF Cons] by simp
    with Parsed Cons show ?thesis by (subst parse_elems.simps) simp
  qed
qed (subst parse_elems.simps, simp)+

lemma parse_members_unguarded:
  "parse_members s =
     (case skip_ws s of
        [] \<Rightarrow> Malformed
      | q # r \<Rightarrow>
          if q \<noteq> dquote then Malformed
          else
            (case parse_chars r of
               Parsed k r1 \<Rightarrow>
                 (case skip_ws r1 of
                    [] \<Rightarrow> Malformed
                  | col # r2 \<Rightarrow>
                      if col \<noteq> CHR '':'' then Malformed
                      else
                        (case parse_value r2 of
                           Parsed v r3 \<Rightarrow>
                             (case skip_ws r3 of
                                [] \<Rightarrow> Malformed
                              | c # r4 \<Rightarrow>
                                  if c = CHR '','' then pmap ((#) (k, v)) (parse_members r4)
                                  else if c = CHR ''}'' then Parsed [(k, v)] r4
                                  else Malformed)
                         | Malformed \<Rightarrow> Malformed
                         | Unsupported \<Rightarrow> Unsupported))
             | Malformed \<Rightarrow> Malformed
             | Unsupported \<Rightarrow> Unsupported))"
proof -
  have "length r4 < length s"
    if "skip_ws s = q # r" "parse_chars r = Parsed k r1" "skip_ws r1 = col # r2"
      "parse_value r2 = Parsed v r3" "skip_ws r3 = c # r4" for q r k r1 col r2 v r3 c r4
    using skip_ws_Cons_length [OF that(1)] parse_chars_length [OF that(2)]
      skip_ws_Cons_length [OF that(3)] parse_length(1) [OF that(4)]
      skip_ws_Cons_length [OF that(5)]
    by simp
  then show ?thesis
    by (subst parse_members.simps) (simp split: list.splits presult.splits)
qed

section \<open>The store\<close>

lemma loadSubmissions_NoFile: "loadSubmissions NoFile = Inr (JArr [])"
  by (simp add: loadSubmissions_def)

lemma loadSubmissions_is_json: "loadSubmissions fs = Inr v \<Longrightarrow> is_json v"
  by (cases fs) (auto simp: loadSubmissions_def dest: JSON_parse_is_json split: if_splits)

lemma saveSubmissions_writable:
  "writable fs \<Longrightarrow> v \<noteq> JUndefined \<Longrightarrow>
   saveSubmissions fs v = Inr (File (SerializeJSONProperty 0 v))"
  by (cases fs) (simp_all add: saveSubmissions_def JSON_stringify_def)

lemma saveSubmissions_Inr:
  "saveSubmissions fs v = Inr fs' \<Longrightarrow> fs' = File (SerializeJSONProperty 0 v) \<and> v \<noteq> JUndefined"
  by (cases fs) (auto simp: saveSubmissions_def JSON_stringify_def split: if_splits)

lemma load_serialised:
  "wf_val v \<Longrightarrow> v \<noteq> JUndefined \<Longrightarrow>
   loadSubmissions (File (SerializeJSONProperty 0 v)) = Inr (json_image v)"
  using JSON_roundtrip [of v] by (auto simp: loadSubmissions_def JSON_stringify_def)

section \<open>Rejected uploads\<close>

lemma flat_submit_invalid:
  "\<not> truthy (get_prop (body req) ''description'') \<or> file req = None \<Longrightarrow>
   \<exists>m. flat_submit mf asm e fs req = reply 400 (error_body m) fs []"
  by (auto simp: flat_submit_def)

lemma api_submissions_invalid:
  "\<not> truthy (get_prop (body req) ''description'') \<or> file req = None \<Longrightarrow>
   \<exists>m. api_submissions e t req = reply 400 (error_body m) t []"
  by (auto simp: api_submissions_def)

text \<open>
  C7. A submit request whose description is missing or empty, or that carries no file, is
  answered 400 with an error body; the store is what it was (so a listing before and after
  agree) and no pin call is made. This holds for the flat-file and for the remote-table
  server.
\<close>

theorem validation_rejects_without_effect:
  assumes "\<not> truthy (get_prop (body req) ''description'') \<or> file req = None"
  shows "(\<exists>m. response (submitData e fs req) = \<lparr>status = 400, json = error_body m\<rparr>)
       \<and> store (submitData e fs req) = fs \<and> pins (submitData e fs req) = []
       \<and> get_submissions (store (submitData e fs req)) = get_submissions fs
       \<and> (\<exists>m. response (api_submissions e t req) = \<lparr>status = 400, json = error_body m\<rparr>)
       \<and> store (api_submissions e t req) = t \<and> pins (api_submissions e t req) = []
       \<and> get_submissions_sb e (store (api_submissions e t req)) = get_submissions_sb e t"
proof -
  obtain m where "submitData e fs req = reply 400 (error_body m) fs []"
    using flat_submit_invalid [OF assms] unfolding submitData_def by blast
  moreover obtain m' where "api_submissions e t req = reply 400 (error_body m') t []"
    using api_submissions_invalid [OF assms] by blast
  ultimately show ?thesis
    by (auto simp: reply_def)
qed

theorem validation_rejects_without_effect_witness:
  "\<not> truthy (get_prop (body (example_request\<lparr>body := JObj [(''description'', JStr [])]\<rparr>))
        ''description'')
   \<and> status (response (submitData example_env NoFile
         (example_request\<lparr>body := JObj [(''description'', JStr [])]\<rparr>))) = 400
   \<and> store (submitData example_env NoFile
         (example_request\<lparr>body := JObj [(''description'', JStr [])]\<rparr>)) = NoFile
   \<and> pins (api_submissions example_env []
         (example_request\<lparr>body := JObj [(''description'', JStr [])]\<rparr>)) = []"
proof -
  have h: "\<not> truthy (get_prop (body (example_request\<lparr>body := JObj [(''description'', JStr [])]\<rparr>))
        ''description'')
    \<or> file (example_request\<lparr>body := JObj [(''description'', JStr [])]\<rparr>) = None"
    by simp
  from validation_rejects_without_effect [OF h, of example_env NoFile "[]"]
  show ?thesis by auto
qed

section \<open>A failing pin call\<close>

lemma flat_submit_pin_fails:
  assumes "\<forall>p \<in> set (pins (flat_submit mf asm e fs req)). isl (axios_post e p)"
  shows "store (flat_submit mf asm e fs req) = fs
         \<and> status (response (flat_submit mf asm e fs req)) \<noteq> 201"
  using assms
  by (auto simp: flat_submit_def reply_def Let_def split: option.splits sum.splits if_splits)

lemma api_submissions_pin_fails:
  assumes "\<forall>p \<in> set (pins (api_submissions e t req)). isl (axios_post e p)"
  shows "store (api_submissions e t req) = t
         \<and> status (response (api_submissions e t req)) \<noteq> 201"
  using assms
  by (auto simp: api_submissions_def reply_def Let_def split: option.splits sum.splits if_splits)

text \<open>
  C6. When the pin call of a submit request fails, no record is persisted: the store after
  the request is the store before it, and the answer is not 201. This holds for the
  flat-file server and for the remote-table server.
\<close>

theorem pin_failure_persists_nothing:
  "((\<forall>p \<in> set (pins (submitData e fs req)). isl (axios_post e p)) \<longrightarrow>
      store (submitData e fs req) = fs \<and> status (response (submitData e fs req)) \<noteq> 201)
   \<and> ((\<forall>p \<in> set (pins (api_submissions e t req)). isl (axios_post e p)) \<longrightarrow>
      store (api_submissions e t req) = t
      \<and> status (response (api_submissions e t req)) \<noteq> 201)"
  using flat_submit_pin_fails api_submissions_pin_fails unfolding submitData_def by blast

theorem pin_failure_persists_nothing_witness:
  "pins (submitData (env_with (Inl ''timeout'') ''id-1'' ''2024-01-01T00:00:00.000Z'')
           NoFile example_request)
     = [pinata_form (body example_request) example_upload ''Bearer jwt'']
   \<and> pins (api_submissions (env_with (Inl ''timeout'') ''id-1'' ''2024-01-01T00:00:00.000Z'')
           [] example_request)
     = [pinata_form (body example_request) example_upload ''Bearer jwt'']
   \<and> axios_post (env_with (Inl ''timeout'') ''id-1'' ''2024-01-01T00:00:00.000Z'')
         (pinata_form (body example_request) example_upload ''Bearer jwt'') = Inl ''timeout''
   \<and> store (submitData (env_with (Inl ''timeout'') ''id-1'' ''2024-01-01T00:00:00.000Z'')
             NoFile example_request) = NoFile
   \<and> status (response (submitData (env_with (Inl ''timeout'') ''id-1'' ''2024-01-01T00:00:00.000Z'')
                         NoFile example_request)) = 500
   \<and> store (api_submissions (env_with (Inl ''timeout'') ''id-1'' ''2024-01-01T00:00:00.000Z'')
             [] example_request) = []"
proof -
  let ?e = "env_with (Inl ''timeout'') ''id-1'' ''2024-01-01T00:00:00.000Z''"
  have h: "\<forall>p \<in> set (pins (submitData ?e NoFile example_request)). isl (axios_post ?e p)"
    "\<forall>p \<in> set (pins (api_submissions ?e [] example_request)). isl (axios_post ?e p)"
    by (simp_all add: env_with_def)
  have "submitData ?e NoFile example_request
        = reply 500 (server_error ''timeout'') NoFile
            [pinata_form (body example_request) example_upload ''Bearer jwt'']"
    by (simp add: submitData_def flat_submit_def env_with_def example_request_def)
  moreover have "api_submissions ?e [] example_request
        = reply 500 (server_error ''timeout'') []
            [pinata_form (body example_request) example_upload ''Bearer jwt'']"
    by (simp add: api_submissions_def env_with_def example_request_def)
  ultimately show ?thesis
    using pin_failure_persists_nothing [of ?e NoFile example_request "[]"] h
    by (simp add: reply_def env_with_def)
qed

section \<open>Projects\<close>

text \<open>
  C10. Project creation tests its required fields by truthiness: a request that supplies
  every required field but gives latitude or longitude as the number 0 is answered 400
  "Missing required fields" and inserts no row.
\<close>

theorem api_projects_zero_coordinate:
  assumes "b \<noteq> JUndefined" and "b \<noteq> JNull"
    and "get_prop b ''latitude'' = JNum 0 \<or> get_prop b ''longitude'' = JNum 0"
  shows "api_projects e t b = reply 400 (error_body ''Missing required fields'') t []"
  using assms by (auto simp: api_projects_def)

theorem api_projects_zero_coordinate_witness:
  "example_project \<noteq> JUndefined \<and> example_project \<noteq> JNull
   \<and> get_prop example_project ''projectId'' = JStr ''P-1''
   \<and> get_prop example_project ''projectName'' = JStr ''Gulf plot''
   \<and> get_prop example_project ''latitude'' = JNum 0
   \<and> get_prop example_project ''longitude'' = JNum 88
   \<and> get_prop example_project ''ecosystemType'' = JStr ''mangrove''
   \<and> get_prop example_project ''implementingAgency'' = JStr ''agency''
   \<and> response (api_projects example_env [] example_project)
       = \<lparr>status = 400, json = error_body ''Missing required fields''\<rparr>
   \<and> store (api_projects example_env [] example_project) = []"
proof -
  have h: "example_project \<noteq> JUndefined" "example_project \<noteq> JNull"
    "get_prop example_project ''latitude'' = JNum 0
     \<or> get_prop example_project ''longitude'' = JNum 0"
    by (simp_all add: example_project_def)
  from api_projects_zero_coordinate [OF h, of example_env "[]"] h(1,2)
  show ?thesis by (simp add: reply_def example_project_def)
qed

section \<open>Records across a save and a load\<close>

lemma json_image_list_map: "json_image_list xs = map json_image xs"
  by (induction xs) simp_all

lemma is_json_list_iff: "is_json_list xs \<longleftrightarrow> (\<forall>x \<in> set xs. is_json x)"
  by (induction xs) simp_all

lemma wf_list_iff: "wf_list xs \<longleftrightarrow> (\<forall>x \<in> set xs. wf_val x)"
  by (induction xs) simp_all

lemma wf_members_iff: "wf_members kvs \<longleftrightarrow> (\<forall>w \<in> set (map snd kvs). wf_val w)"
  by (induction kvs) auto

lemma is_json_members_iff: "is_json_members kvs \<longleftrightarrow> (\<forall>w \<in> set (map snd kvs). is_json w)"
  by (induction kvs) auto

lemma map_of_json_image_members:
  "distinct (map fst kvs) \<Longrightarrow>
   map_of (json_image_members kvs) k =
     (case map_of kvs k of
        None \<Rightarrow> None
      | Some v \<Rightarrow> if v = JUndefined then None else Some (json_image v))"
proof (induction kvs)
  case Nil
  then show ?case by simp
next
  case (Cons p kvs)
  obtain k' v' where p: "p = (k', v')" by (cases p)
  show ?case
  proof (cases "k' = k")
    case True
    with Cons.prems p have "k \<notin> fst ` set kvs" by auto
    then have "k \<notin> fst ` set (json_image_members kvs)"
      using json_image_members_keys [of k _ kvs] by force
    then have "map_of (json_image_members kvs) k = None"
      by (simp add: map_of_eq_None_iff)
    with True p show ?thesis by simp
  next
    case False
    with Cons p show ?thesis by simp
  qed
qed





section \<open>Marking an unknown id\<close>


lemma loaded_elements:
  assumes "loadSubmissions fs = Inr (JArr xs)" and "x \<in> set xs"
  shows "is_json x"
  using loadSubmissions_is_json [OF assms(1)] assms(2) by (simp add: is_json_list_iff)




section \<open>Accepted uploads\<close>

lemma truthy_get_prop: "truthy (get_prop b k) \<Longrightarrow> truthy b"
  by (cases b) simp_all

lemma wf_val_get_prop: "wf_val b \<Longrightarrow> wf_val (get_prop b k)"
proof (cases b)
  case (JObj kvs)
  assume "wf_val b"
  with JObj have w: "\<forall>w \<in> set (map snd kvs). wf_val w" by (simp add: wf_members_iff)
  show ?thesis
  proof (cases "map_of kvs k")
    case None
    with JObj show ?thesis by simp
  next
    case (Some v)
    then have "(k, v) \<in> set kvs" by (rule map_of_SomeD)
    then have "v \<in> set (map snd kvs)" by force
    with w Some JObj show ?thesis by auto
  qed
qed simp_all

lemma wf_val_js_or: "wf_val a \<Longrightarrow> wf_val b \<Longrightarrow> wf_val (js_or a b)"
  by (simp add: js_or_def)

lemma wf_val_gateway_url: "wf_val (gateway_url h)"
  by (simp add: gateway_url_def)

lemma wf_submission_record:
  "wf_val b \<Longrightarrow> wf_val data \<Longrightarrow> wf_val (submission_record e b f data)"
  by (simp add: submission_record_def Let_def wf_val_get_prop wf_val_js_or wf_val_gateway_url)

lemma wf_submission_record_v1:
  "wf_val b \<Longrightarrow> wf_val data \<Longrightarrow> wf_val (submission_record_v1 e b f data)"
  by (simp add: submission_record_v1_def Let_def wf_val_get_prop wf_val_js_or wf_val_gateway_url)

lemma wf_submission_record_sb:
  "wf_val b \<Longrightarrow> wf_val data \<Longrightarrow> wf_val (submission_record_sb e b f data)"
  by (simp add: submission_record_sb_def Let_def wf_val_get_prop wf_val_js_or wf_val_gateway_url)

lemma flat_submit_success:
  assumes "truthy (get_prop (body req) ''description'')" and "file req = Some f"
    and "PINATA_JWT e = Some jwt" and "jwt \<noteq> []"
    and "axios_post e (pinata_form (body req) f (''Bearer '' @ jwt)) = Inr data"
    and "loadSubmissions fs = Inr (JArr xs)" and "writable fs"
  shows "flat_submit mf asm e fs req =
     reply 201 (JObj [(''success'', JBool True), (''submission'', asm e (body req) f data)])
       (File (SerializeJSONProperty 0 (JArr (xs @ [asm e (body req) f data]))))
       [pinata_form (body req) f (''Bearer '' @ jwt)]"
  using assms truthy_get_prop [OF assms(1)]
  by (simp add: flat_submit_def Let_def saveSubmissions_writable)

lemma load_after_append:
  assumes "loadSubmissions fs = Inr (JArr xs)" and "wf_val r"
  shows "loadSubmissions (File (SerializeJSONProperty 0 (JArr (xs @ [r]))))
         = Inr (JArr (xs @ [json_image r]))"
proof -
  have j: "is_json_list xs"
    using loadSubmissions_is_json [OF assms(1)] by simp
  then have "wf_val (JArr (xs @ [r]))"
    using assms(2) is_json_wf(2) [OF j] by (simp add: wf_list_iff)
  then show ?thesis
    using load_serialised [of "JArr (xs @ [r])"] json_image_id(2) [OF j]
    by (simp add: json_image_list_map)
qed

lemma api_submissions_success:
  assumes "truthy (get_prop (body req) ''description'')" and "file req = Some f"
    and "axios_post e (pinata_form (body req) f
           (''Bearer '' @ (case PINATA_JWT e of None \<Rightarrow> ''undefined'' | Some jwt \<Rightarrow> jwt))) = Inr data"
    and "supabase_error e = None"
  shows "api_submissions e t req =
     reply 201 (JObj [(''success'', JBool True),
                      (''submission'', submission_record_sb e (body req) f data)])
       (t @ [json_image (submission_record_sb e (body req) f data)])
       [pinata_form (body req) f
          (''Bearer '' @ (case PINATA_JWT e of None \<Rightarrow> ''undefined'' | Some jwt \<Rightarrow> jwt))]"
  using assms by (simp add: api_submissions_def Let_def sb_insert_def)

lemma get_prop_json_image:
  "wf_val r \<Longrightarrow>
   get_prop (json_image r) k =
     (case get_prop r k of JUndefined \<Rightarrow> JUndefined | v \<Rightarrow> json_image v)"
  by (cases r) (auto simp: map_of_json_image_members split: option.splits jsval.splits)

text \<open>
  C1, as the code has it. When the pin call succeeds but its reply carries no content
  identifier, the pipeline does not fail: it answers 201 and persists the record, with
  the \<^verbatim>\<open>ipfsHash\<close> field absent and \<^verbatim>\<open>imageUrl\<close> null, in the flat-file server
  and (when the insert succeeds) in the remote-table server.
\<close>

theorem pin_reply_without_hash_is_persisted:
  assumes "truthy (get_prop (body req) ''description'')" and "file req = Some f"
    and "wf_val (body req)" and "wf_val data"
    and "get_prop data ''IpfsHash'' = JUndefined"
  shows "(PINATA_JWT e = Some jwt \<longrightarrow> jwt \<noteq> [] \<longrightarrow>
          axios_post e (pinata_form (body req) f (''Bearer '' @ jwt)) = Inr data \<longrightarrow>
          loadSubmissions fs = Inr (JArr xs) \<longrightarrow> writable fs \<longrightarrow>
          (\<exists>r. response (submitData e fs req)
                  = \<lparr>status = 201, json = JObj [(''success'', JBool True), (''submission'', r)]\<rparr>
             \<and> get_prop r ''ipfsHash'' = JUndefined \<and> get_prop r ''imageUrl'' = JNull
             \<and> loadSubmissions (store (submitData e fs req)) = Inr (JArr (xs @ [json_image r]))
             \<and> get_prop (json_image r) ''ipfsHash'' = JUndefined
             \<and> get_prop (json_image r) ''imageUrl'' = JNull))
       \<and> (axios_post e (pinata_form (body req) f
             (''Bearer '' @ (case PINATA_JWT e of None \<Rightarrow> ''undefined'' | Some jwt \<Rightarrow> jwt)))
             = Inr data \<longrightarrow>
          supabase_error e = None \<longrightarrow>
          (\<exists>r. response (api_submissions e t req)
                  = \<lparr>status = 201, json = JObj [(''success'', JBool True), (''submission'', r)]\<rparr>
             \<and> get_prop r ''ipfsHash'' = JUndefined \<and> get_prop r ''imageUrl'' = JNull
             \<and> store (api_submissions e t req) = t @ [json_image r]
             \<and> get_prop (json_image r) ''ipfsHash'' = JUndefined
             \<and> get_prop (json_image r) ''imageUrl'' = JNull))"
proof (intro conjI impI)
  assume j: "PINATA_JWT e = Some jwt" "jwt \<noteq> []"
    and p: "axios_post e (pinata_form (body req) f (''Bearer '' @ jwt)) = Inr data"
    and l: "loadSubmissions fs = Inr (JArr xs)" and w: "writable fs"
  let ?r = "submission_record e (body req) f data"
  have s: "submitData e fs req =
     reply 201 (JObj [(''success'', JBool True), (''submission'', ?r)])
       (File (SerializeJSONProperty 0 (JArr (xs @ [?r]))))
       [pinata_form (body req) f (''Bearer '' @ jwt)]"
    unfolding submitData_def
    by (rule flat_submit_success [OF assms(1,2) j p l w])
  have wf: "wf_val ?r"
    using assms(3,4) by (rule wf_submission_record)
  then have ld: "loadSubmissions (store (submitData e fs req)) = Inr (JArr (xs @ [json_image ?r]))"
    using load_after_append [OF l] s by (simp add: reply_def)
  have g: "get_prop ?r ''ipfsHash'' = JUndefined" "get_prop ?r ''imageUrl'' = JNull"
    using assms(5) by (simp_all add: submission_record_def gateway_url_def)
  have gi: "get_prop (json_image ?r) ''ipfsHash'' = JUndefined"
    "get_prop (json_image ?r) ''imageUrl'' = JNull"
    using g by (simp_all add: get_prop_json_image [OF wf])
  show "\<exists>r. response (submitData e fs req)
              = \<lparr>status = 201, json = JObj [(''success'', JBool True), (''submission'', r)]\<rparr>
         \<and> get_prop r ''ipfsHash'' = JUndefined \<and> get_prop r ''imageUrl'' = JNull
         \<and> loadSubmissions (store (submitData e fs req)) = Inr (JArr (xs @ [json_image r]))
         \<and> get_prop (json_image r) ''ipfsHash'' = JUndefined
         \<and> get_prop (json_image r) ''imageUrl'' = JNull"
    using s ld g gi by (intro exI [of _ ?r]) (simp add: reply_def)
next
  assume p: "axios_post e (pinata_form (body req) f
             (''Bearer '' @ (case PINATA_JWT e of None \<Rightarrow> ''undefined'' | Some jwt \<Rightarrow> jwt)))
             = Inr data"
    and n: "supabase_error e = None"
  let ?r = "submission_record_sb e (body req) f data"
  note s = api_submissions_success [OF assms(1,2) p n, of t]
  have wf: "wf_val ?r"
    using assms(3,4) by (rule wf_submission_record_sb)
  have g: "get_prop ?r ''ipfsHash'' = JUndefined" "get_prop ?r ''imageUrl'' = JNull"
    using assms(5) by (simp_all add: submission_record_sb_def gateway_url_def)
  have gi: "get_prop (json_image ?r) ''ipfsHash'' = JUndefined"
    "get_prop (json_image ?r) ''imageUrl'' = JNull"
    using g by (simp_all add: get_prop_json_image [OF wf])
  show "\<exists>r. response (api_submissions e t req)
              = \<lparr>status = 201, json = JObj [(''success'', JBool True), (''submission'', r)]\<rparr>
         \<and> get_prop r ''ipfsHash'' = JUndefined \<and> get_prop r ''imageUrl'' = JNull
         \<and> store (api_submissions e t req) = t @ [json_image r]
         \<and> get_prop (json_image r) ''ipfsHash'' = JUndefined
         \<and> get_prop (json_image r) ''imageUrl'' = JNull"
    using s g gi by (intro exI [of _ ?r]) (simp add: reply_def)
qed

theorem pin_reply_without_hash_is_persisted_witness:
  "truthy (get_prop (body example_request) ''description'')
   \<and> file example_request = Some example_upload
   \<and> wf_val (body example_request) \<and> wf_val (JObj [(''PinSize'', JNum 3)])
   \<and> get_prop (JObj [(''PinSize'', JNum 3)]) ''IpfsHash'' = JUndefined
   \<and> axios_post (env_with pinned_without_hash ''id-1'' ''2024-01-01T00:00:00.000Z'')
         (pinata_form (body example_request) example_upload ''Bearer jwt'')
       = Inr (JObj [(''PinSize'', JNum 3)])
   \<and> loadSubmissions NoFile = Inr (JArr []) \<and> writable NoFile
   \<and> status (response (submitData
         (env_with pinned_without_hash ''id-1'' ''2024-01-01T00:00:00.000Z'') NoFile
         example_request)) = 201
   \<and> length (stored_records (store (submitData
         (env_with pinned_without_hash ''id-1'' ''2024-01-01T00:00:00.000Z'') NoFile
         example_request))) = 1
   \<and> status (response (api_submissions
         (env_with pinned_without_hash ''id-1'' ''2024-01-01T00:00:00.000Z'') []
         example_request)) = 201
   \<and> length (store (api_submissions
         (env_with pinned_without_hash ''id-1'' ''2024-01-01T00:00:00.000Z'') []
         example_request)) = 1"
proof -
  let ?e = "env_with pinned_without_hash ''id-1'' ''2024-01-01T00:00:00.000Z''"
  let ?d = "JObj [(''PinSize'', JNum 3)]"
  have h: "truthy (get_prop (body example_request) ''description'')"
    "file example_request = Some example_upload"
    "wf_val (body example_request)" "wf_val ?d" "get_prop ?d ''IpfsHash'' = JUndefined"
    by (simp_all add: example_request_def)
  have a: "PINATA_JWT ?e = Some ''jwt''" "''jwt'' \<noteq> []"
    "axios_post ?e (pinata_form (body example_request) example_upload (''Bearer '' @ ''jwt'')) = Inr ?d"
    "loadSubmissions NoFile = Inr (JArr [])" "writable NoFile"
    "axios_post ?e (pinata_form (body example_request) example_upload
       (''Bearer '' @ (case PINATA_JWT ?e of None \<Rightarrow> ''undefined'' | Some jwt \<Rightarrow> jwt))) = Inr ?d"
    "supabase_error ?e = None"
    by (simp_all add: env_with_def pinned_without_hash_def loadSubmissions_NoFile)
  from pin_reply_without_hash_is_persisted [OF h, of ?e "''jwt''" NoFile "[]" "[]"] a
  have "(\<exists>r. response (submitData ?e NoFile example_request)
                  = \<lparr>status = 201, json = JObj [(''success'', JBool True), (''submission'', r)]\<rparr>
             \<and> loadSubmissions (store (submitData ?e NoFile example_request))
                 = Inr (JArr ([] @ [json_image r])))"
    and "(\<exists>r. response (api_submissions ?e [] example_request)
                  = \<lparr>status = 201, json = JObj [(''success'', JBool True), (''submission'', r)]\<rparr>
             \<and> store (api_submissions ?e [] example_request) = [] @ [json_image r])"
    by blast+
  then show ?thesis
    using h a(3,4,5) by (auto simp: stored_records_def)
qed

text \<open>
  An upload whose pin reply has no \<^verbatim>\<open>IpfsHash\<close> is answered 201, and the empty store
  then holds one record, without a content identifier.
\<close>

theorem pin_reply_without_hash_counterexample:
  "axios_post (env_with pinned_without_hash ''id-1'' ''2024-01-01T00:00:00.000Z'')
       (pinata_form (body example_request) example_upload ''Bearer jwt'')
     = Inr (JObj [(''PinSize'', JNum 3)])
   \<and> get_prop (JObj [(''PinSize'', JNum 3)]) ''IpfsHash'' = JUndefined
   \<and> stored_records NoFile = []
   \<and> status (response (submitData
         (env_with pinned_without_hash ''id-1'' ''2024-01-01T00:00:00.000Z'') NoFile
         example_request)) = 201
   \<and> length (stored_records (store (submitData
         (env_with pinned_without_hash ''id-1'' ''2024-01-01T00:00:00.000Z'') NoFile
         example_request))) = 1
   \<and> get_prop (hd (stored_records (store (submitData
         (env_with pinned_without_hash ''id-1'' ''2024-01-01T00:00:00.000Z'') NoFile
         example_request)))) ''id'' = JStr ''id-1''
   \<and> get_prop (hd (stored_records (store (submitData
         (env_with pinned_without_hash ''id-1'' ''2024-01-01T00:00:00.000Z'') NoFile
         example_request)))) ''ipfsHash'' = JUndefined"
  by code_simp


lemma returned_record_reply:
  "returned_record (reply c (JObj [(''success'', JBool True), (''submission'', r)]) s ps) = r"
  by (simp add: returned_record_def reply_def)

text \<open>
  C4, as the code has it. A valid submission (truthy description, file present, pin call
  and store succeed) is answered 201 with a record whose \<^verbatim>\<open>description\<close> is the one
  given in the request. Its \<^verbatim>\<open>status\<close> is "pending" in server.js, in the flat-file
  server with the \<^verbatim>\<open>/api/submissions\<close> routes and in the remote-table server; the record
  of the oldest server has no \<^verbatim>\<open>status\<close> field.
\<close>

theorem accepted_upload_record_fields:
  assumes "truthy (get_prop (body req) ''description'')" and "file req = Some f"
  shows "(PINATA_JWT e = Some jwt \<longrightarrow> jwt \<noteq> [] \<longrightarrow>
          axios_post e (pinata_form (body req) f (''Bearer '' @ jwt)) = Inr data \<longrightarrow>
          loadSubmissions fs = Inr (JArr xs) \<longrightarrow> writable fs \<longrightarrow>
            status (response (submitData e fs req)) = 201
          \<and> get_prop (returned_record (submitData e fs req)) ''description''
               = get_prop (body req) ''description''
          \<and> get_prop (returned_record (submitData e fs req)) ''status'' = JStr ''pending''
          \<and> status (response (api_submissions_flat e fs req)) = 201
          \<and> get_prop (returned_record (api_submissions_flat e fs req)) ''description''
               = get_prop (body req) ''description''
          \<and> get_prop (returned_record (api_submissions_flat e fs req)) ''status''
               = JStr ''pending''
          \<and> status (response (submitData_v1 e fs req)) = 201
          \<and> get_prop (returned_record (submitData_v1 e fs req)) ''description''
               = get_prop (body req) ''description''
          \<and> get_prop (returned_record (submitData_v1 e fs req)) ''status'' = JUndefined)
       \<and> (axios_post e (pinata_form (body req) f
             (''Bearer '' @ (case PINATA_JWT e of None \<Rightarrow> ''undefined'' | Some jwt \<Rightarrow> jwt)))
             = Inr data \<longrightarrow>
          supabase_error e = None \<longrightarrow>
            status (response (api_submissions e t req)) = 201
          \<and> get_prop (returned_record (api_submissions e t req)) ''description''
               = get_prop (body req) ''description''
          \<and> get_prop (returned_record (api_submissions e t req)) ''status'' = JStr ''pending'')"
proof (intro conjI impI)
  assume j: "PINATA_JWT e = Some jwt" "jwt \<noteq> []"
    and p: "axios_post e (pinata_form (body req) f (''Bearer '' @ jwt)) = Inr data"
    and l: "loadSubmissions fs = Inr (JArr xs)" and w: "writable fs"
  note s = flat_submit_success [OF assms j p l w]
  have d: "js_or (get_prop (body req) ''description'') JNull = get_prop (body req) ''description''"
    using assms(1) by (simp add: js_or_def)
  show "status (response (submitData e fs req)) = 201"
    "status (response (api_submissions_flat e fs req)) = 201"
    "status (response (submitData_v1 e fs req)) = 201"
    by (simp_all add: submitData_def api_submissions_flat_def submitData_v1_def s reply_def)
  show "get_prop (returned_record (submitData e fs req)) ''description''
          = get_prop (body req) ''description''"
    "get_prop (returned_record (submitData e fs req)) ''status'' = JStr ''pending''"
    by (simp_all add: submitData_def s returned_record_reply submission_record_def Let_def d)
  show "get_prop (returned_record (api_submissions_flat e fs req)) ''description''
          = get_prop (body req) ''description''"
    "get_prop (returned_record (api_submissions_flat e fs req)) ''status'' = JStr ''pending''"
    by (simp_all add: api_submissions_flat_def s returned_record_reply submission_record_def Let_def d)
  show "get_prop (returned_record (submitData_v1 e fs req)) ''description''
          = get_prop (body req) ''description''"
    "get_prop (returned_record (submitData_v1 e fs req)) ''status'' = JUndefined"
    by (simp_all add: submitData_v1_def s returned_record_reply submission_record_v1_def Let_def d)
next
  assume p: "axios_post e (pinata_form (body req) f
             (''Bearer '' @ (case PINATA_JWT e of None \<Rightarrow> ''undefined'' | Some jwt \<Rightarrow> jwt)))
             = Inr data"
    and n: "supabase_error e = None"
  note s = api_submissions_success [OF assms p n, of t]
  show "status (response (api_submissions e t req)) = 201"
    by (simp add: s reply_def)
  show "get_prop (returned_record (api_submissions e t req)) ''description''
          = get_prop (body req) ''description''"
    "get_prop (returned_record (api_submissions e t req)) ''status'' = JStr ''pending''"
    by (simp_all add: s returned_record_reply submission_record_sb_def Let_def)
qed

theorem accepted_upload_record_fields_witness:
  "truthy (get_prop (body example_request) ''description'')
   \<and> file example_request = Some example_upload
   \<and> axios_post example_env (pinata_form (body example_request) example_upload ''Bearer jwt'')
       = pinned
   \<and> loadSubmissions NoFile = Inr (JArr []) \<and> writable NoFile
   \<and> status (response (submitData example_env NoFile example_request)) = 201
   \<and> get_prop (returned_record (submitData example_env NoFile example_request)) ''description''
       = JStr ''mangrove plot''
   \<and> get_prop (returned_record (submitData example_env NoFile example_request)) ''status''
       = JStr ''pending''
   \<and> get_prop (returned_record (submitData_v1 example_env NoFile example_request)) ''status''
       = JUndefined
   \<and> get_prop (returned_record (api_submissions example_env [] example_request)) ''status''
       = JStr ''pending''"
proof -
  let ?d = "JObj [(''IpfsHash'', JStr ''bafy1''), (''PinSize'', JNum 3)]"
  have h: "truthy (get_prop (body example_request) ''description'')"
    "file example_request = Some example_upload"
    by (simp_all add: example_request_def)
  have a: "PINATA_JWT example_env = Some ''jwt''" "''jwt'' \<noteq> []"
    "axios_post example_env
       (pinata_form (body example_request) example_upload (''Bearer '' @ ''jwt'')) = Inr ?d"
    "loadSubmissions NoFile = Inr (JArr [])" "writable NoFile"
    "axios_post example_env (pinata_form (body example_request) example_upload
       (''Bearer '' @ (case PINATA_JWT example_env of None \<Rightarrow> ''undefined'' | Some jwt \<Rightarrow> jwt)))
     = Inr ?d"
    "supabase_error example_env = None"
    by (simp_all add: example_env_def env_with_def pinned_def loadSubmissions_NoFile)
  have b: "get_prop (body example_request) ''description'' = JStr ''mangrove plot''"
    by (simp add: example_request_def)
  from accepted_upload_record_fields [OF h, of example_env "''jwt''" ?d NoFile "[]" "[]"] a b
  show ?thesis
    using h by (simp add: pinned_def)
qed

text \<open>
  The record the oldest server returns with 201 has the description of the request and no
  \<^verbatim>\<open>status\<close>.
\<close>

theorem oldest_server_record_has_no_status:
  "status (response (submitData_v1 example_env NoFile example_request)) = 201
   \<and> get_prop (returned_record (submitData_v1 example_env NoFile example_request))
         ''description'' = JStr ''mangrove plot''
   \<and> get_prop (returned_record (submitData_v1 example_env NoFile example_request)) ''status''
       = JUndefined"
  by code_simp

section \<open>Listing\<close>

lemma mset_insert_desc: "mset (insert_desc col r xs) = add_mset r (mset xs)"
  by (induction xs) simp_all

lemma mset_order_desc: "mset (order_desc col rows) = mset rows"
  by (induction rows) (simp_all add: order_desc_def mset_insert_desc)

lemma set_insert_desc: "set (insert_desc col r xs) = insert r (set xs)"
  using mset_insert_desc [of col r xs] by (metis set_mset_add_mset_insert set_mset_mset)

lemma precedes_created_at:
  "has_created_at a \<Longrightarrow> has_created_at b \<Longrightarrow>
   precedes (order_key (get_prop a ''createdAt'')) (order_key (get_prop b ''createdAt''))
     = (created_at b \<le> created_at a)"
  by (auto simp: has_created_at_def created_at_def split: jsval.splits)

lemma sorted_insert_desc:
  assumes "sorted_wrt (\<lambda>a b. created_at b \<le> created_at a) xs"
    and "has_created_at r" and "\<forall>x \<in> set xs. has_created_at x"
  shows "sorted_wrt (\<lambda>a b. created_at b \<le> created_at a) (insert_desc ''createdAt'' r xs)"
  using assms
proof (induction xs)
  case Nil
  then show ?case by simp
next
  case (Cons x xs)
  show ?case
  proof (cases "created_at x \<le> created_at r")
    case True
    then have "\<forall>y \<in> set xs. created_at y \<le> created_at r"
      using Cons.prems(1) by fastforce
    with True Cons.prems show ?thesis
      by (simp add: precedes_created_at)
  next
    case False
    then have "created_at r \<le> created_at x" by simp
    with False Cons show ?thesis
      by (simp add: precedes_created_at set_insert_desc)
  qed
qed

lemma sorted_order_desc:
  "\<forall>x \<in> set rows. has_created_at x \<Longrightarrow>
   sorted_wrt (\<lambda>a b. created_at b \<le> created_at a) (order_desc ''createdAt'' rows)"
proof (induction rows)
  case Nil
  then show ?case by (simp add: order_desc_def)
next
  case (Cons r rows)
  have "set (order_desc ''createdAt'' rows) = set rows"
    using mset_order_desc [of "''createdAt''" rows] by (metis set_mset_mset)
  with Cons show ?case
    using sorted_insert_desc [of "order_desc ''createdAt'' rows" r]
    by (simp add: order_desc_def)
qed

text \<open>
  C2, as the code has it. The remote-table server lists the rows ordered by creation time,
  latest first. The flat-file server lists the records in the order of the file, where
  each accepted upload is appended last: records created at t1 < t2 < t3 are listed as
  [t1, t2, t3].
\<close>

theorem listing_order:
  "(supabase_error e = None \<longrightarrow> (\<forall>r \<in> set t. has_created_at r) \<longrightarrow>
      get_submissions_sb e t = reply 200 (JArr (listing (get_submissions_sb e t))) t []
      \<and> mset (listing (get_submissions_sb e t)) = mset t
      \<and> sorted_wrt (\<lambda>a b. created_at b \<le> created_at a) (listing (get_submissions_sb e t)))
   \<and> (loadSubmissions fs = Inr (JArr xs) \<longrightarrow> get_submissions fs = reply 200 (JArr xs) fs [])
   \<and> (truthy (get_prop (body req) ''description'') \<longrightarrow> file req = Some f \<longrightarrow>
      wf_val (body req) \<longrightarrow> wf_val data \<longrightarrow> PINATA_JWT e = Some jwt \<longrightarrow> jwt \<noteq> [] \<longrightarrow>
      axios_post e (pinata_form (body req) f (''Bearer '' @ jwt)) = Inr data \<longrightarrow>
      loadSubmissions fs = Inr (JArr xs) \<longrightarrow> writable fs \<longrightarrow>
      listing (get_submissions (store (submitData e fs req)))
        = xs @ [json_image (submission_record e (body req) f data)]
      \<and> created_at (json_image (submission_record e (body req) f data)) = now e)"
proof (intro conjI impI)
  assume n: "supabase_error e = None" and h: "\<forall>r \<in> set t. has_created_at r"
  have g: "get_submissions_sb e t = reply 200 (JArr (order_desc ''createdAt'' t)) t []"
    using n by (simp add: get_submissions_sb_def sb_select_order_desc_def)
  then have l: "listing (get_submissions_sb e t) = order_desc ''createdAt'' t"
    by (simp add: listing_def reply_def)
  show "get_submissions_sb e t = reply 200 (JArr (listing (get_submissions_sb e t))) t []"
    using g l by simp
  show "mset (listing (get_submissions_sb e t)) = mset t"
    using l by (simp add: mset_order_desc)
  show "sorted_wrt (\<lambda>a b. created_at b \<le> created_at a) (listing (get_submissions_sb e t))"
    using l sorted_order_desc [OF h] by simp
next
  assume "loadSubmissions fs = Inr (JArr xs)"
  then show "get_submissions fs = reply 200 (JArr xs) fs []"
    by (simp add: get_submissions_def)
next
  assume a: "truthy (get_prop (body req) ''description'')" "file req = Some f"
    and w: "wf_val (body req)" "wf_val data"
    and j: "PINATA_JWT e = Some jwt" "jwt \<noteq> []"
    and p: "axios_post e (pinata_form (body req) f (''Bearer '' @ jwt)) = Inr data"
    and l: "loadSubmissions fs = Inr (JArr xs)" and wr: "writable fs"
  let ?r = "submission_record e (body req) f data"
  have s: "store (submitData e fs req) = File (SerializeJSONProperty 0 (JArr (xs @ [?r])))"
    unfolding submitData_def
    by (simp add: flat_submit_success [OF a j p l wr] reply_def)
  have wf: "wf_val ?r"
    using w by (rule wf_submission_record)
  then have "loadSubmissions (store (submitData e fs req)) = Inr (JArr (xs @ [json_image ?r]))"
    using load_after_append [OF l] s by simp
  then show "listing (get_submissions (store (submitData e fs req))) = xs @ [json_image ?r]"
    by (simp add: get_submissions_def listing_def reply_def)
  have "get_prop ?r ''createdAt'' = JStr (now e)"
    by (simp add: submission_record_def Let_def)
  then show "created_at (json_image ?r) = now e"
    by (simp add: created_at_def get_prop_json_image [OF wf])
qed

theorem listing_order_witness:
  "supabase_error example_env = None
   \<and> created_times three_rows
       = [JStr ''2024-01-01T00:00:00.000Z'', JStr ''2024-01-02T00:00:00.000Z'',
          JStr ''2024-01-03T00:00:00.000Z'']
   \<and> created_times (listing (get_submissions_sb example_env three_rows))
       = [JStr ''2024-01-03T00:00:00.000Z'', JStr ''2024-01-02T00:00:00.000Z'',
          JStr ''2024-01-01T00:00:00.000Z'']
   \<and> mset (listing (get_submissions_sb example_env three_rows)) = mset three_rows
   \<and> loadSubmissions NoFile = Inr (JArr [])
   \<and> get_submissions NoFile = reply 200 (JArr []) NoFile []
   \<and> created_times (listing (get_submissions (store (submitData example_env NoFile
         example_request)))) = [JStr ''2024-01-01T00:00:00.000Z'']"
proof -
  have r: "supabase_error example_env = None" "\<forall>r \<in> set three_rows. has_created_at r"
    and c: "created_times three_rows
       = [JStr ''2024-01-01T00:00:00.000Z'', JStr ''2024-01-02T00:00:00.000Z'',
          JStr ''2024-01-03T00:00:00.000Z'']"
    and d: "created_times (listing (get_submissions_sb example_env three_rows))
       = [JStr ''2024-01-03T00:00:00.000Z'', JStr ''2024-01-02T00:00:00.000Z'',
          JStr ''2024-01-01T00:00:00.000Z'']"
    and o: "created_times (listing (get_submissions (store (submitData example_env NoFile
         example_request)))) = [JStr ''2024-01-01T00:00:00.000Z'']"
    by code_simp+
  have l: "loadSubmissions NoFile = Inr (JArr [])"
    by (rule loadSubmissions_NoFile)
  have u: "truthy (get_prop (body example_request) ''description'')"
    "file example_request = Some example_upload" "wf_val (body example_request)"
    "wf_val (JObj [(''IpfsHash'', JStr ''bafy1''), (''PinSize'', JNum 3)])"
    "PINATA_JWT example_env = Some ''jwt''" "''jwt'' \<noteq> []"
    "axios_post example_env
       (pinata_form (body example_request) example_upload (''Bearer '' @ ''jwt''))
     = Inr (JObj [(''IpfsHash'', JStr ''bafy1''), (''PinSize'', JNum 3)])"
    "writable NoFile"
    by (simp_all add: example_request_def example_env_def env_with_def pinned_def)
  from listing_order [where e = example_env and t = three_rows and fs = NoFile and xs = "[]"
      and req = example_request and f = example_upload and jwt = "''jwt''"
      and data = "JObj [(''IpfsHash'', JStr ''bafy1''), (''PinSize'', JNum 3)]"] r l u
  have "mset (listing (get_submissions_sb example_env three_rows)) = mset three_rows"
    and "get_submissions NoFile = reply 200 (JArr []) NoFile []"
    and "length (listing (get_submissions (store (submitData example_env NoFile
           example_request)))) = 1"
    by simp_all
  with r(1) c d o l show ?thesis by simp
qed

text \<open>
  Three uploads to the flat-file server on consecutive days are listed oldest first, not
  latest first.
\<close>

theorem flat_listing_is_oldest_first:
  "''2024-01-01T00:00:00.000Z'' < ''2024-01-02T00:00:00.000Z''
   \<and> ''2024-01-02T00:00:00.000Z'' < ''2024-01-03T00:00:00.000Z''
   \<and> status (response (get_submissions three_uploads)) = 200
   \<and> created_times (listing (get_submissions three_uploads))
       = [JStr ''2024-01-01T00:00:00.000Z'', JStr ''2024-01-02T00:00:00.000Z'',
          JStr ''2024-01-03T00:00:00.000Z'']"
  by code_simp

section \<open>Writing properties\<close>

lemma write_props_Nil [simp]: "write_props kvs [] = kvs"
  by (simp add: write_props_def)

lemma write_props_Cons [simp]:
  "write_props kvs ((k, v) # patch) = write_props (AList.update k v kvs) patch"
  by (simp add: write_props_def set_prop_def)

lemma minted_record_write_props:
  "minted_record s b = JObj (write_props (spread s) (evidence_patch b))"
  by (simp add: minted_record_def evidence_patch_def set_prop_def)

lemma apply_patch_write_props: "apply_patch s patch = JObj (write_props (spread s) patch)"
  by (simp add: apply_patch_def write_props_def)

lemma distinct_write_props:
  "distinct (map fst kvs) \<Longrightarrow> distinct (map fst (write_props kvs patch))"
proof (induction patch arbitrary: kvs)
  case Nil
  then show ?case by simp
next
  case (Cons p patch)
  obtain k v where "p = (k, v)" by (cases p)
  with Cons show ?case by (simp add: distinct_update)
qed

lemma map_of_write_props_other:
  "k \<notin> fst ` set patch \<Longrightarrow> map_of (write_props kvs patch) k = map_of kvs k"
proof (induction patch arbitrary: kvs)
  case Nil
  then show ?case by simp
next
  case (Cons p patch)
  obtain k' v where "p = (k', v)" by (cases p)
  with Cons show ?case by (auto simp: update_conv')
qed


lemma wf_members_update:
  "wf_val v \<Longrightarrow> wf_members kvs \<Longrightarrow> wf_members (AList.update k v kvs)"
  by (induction kvs) auto

lemma wf_members_write_props:
  "wf_members kvs \<Longrightarrow> \<forall>w \<in> set (map snd patch). wf_val w \<Longrightarrow>
   wf_members (write_props kvs patch)"
proof (induction patch arbitrary: kvs)
  case Nil
  then show ?case by simp
next
  case (Cons p patch)
  obtain k v where "p = (k, v)" by (cases p)
  with Cons show ?case by (simp add: wf_members_update)
qed

lemma wf_val_spread: "wf_val s \<Longrightarrow> distinct (map fst (spread s)) \<and> wf_members (spread s)"
  by (cases s) simp_all

lemma evidence_patch_keys [simp]: "map fst (evidence_patch b) = minted_keys"
  by (simp add: evidence_patch_def minted_keys_def)

lemma distinct_minted_keys [simp]: "distinct minted_keys"
  by (simp add: minted_keys_def)

lemma wf_evidence_patch: "wf_val b \<Longrightarrow> \<forall>w \<in> set (map snd (evidence_patch b)). wf_val w"
  by (simp add: evidence_patch_def wf_val_get_prop)

lemma wf_minted_record: "wf_val s \<Longrightarrow> wf_val b \<Longrightarrow> wf_val (minted_record s b)"
  using wf_val_spread [of s]
  by (simp add: minted_record_write_props distinct_write_props wf_members_write_props
        wf_evidence_patch)

lemma get_prop_spread: "get_prop (JObj (spread s)) k = get_prop s k"
  by (cases s) simp_all

lemma get_prop_minted_record_other:
  "k \<notin> set minted_keys \<Longrightarrow> get_prop (minted_record s b) k = get_prop s k"
proof -
  assume "k \<notin> set minted_keys"
  then have "k \<notin> fst ` set (evidence_patch b)"
    using evidence_patch_keys [of b] by (metis set_map)
  then have "map_of (write_props (spread s) (evidence_patch b)) k = map_of (spread s) k"
    by (rule map_of_write_props_other)
  then show ?thesis
    using get_prop_spread [of s k] by (simp add: minted_record_write_props)
qed


subsection \<open>Writing the same properties again\<close>






section \<open>Marking a known id\<close>

lemma findIndex_Some:
  "findIndex xs i = Inr (Some n) \<Longrightarrow>
   n < length xs \<and> get_prop (xs ! n) ''id'' = JStr i
   \<and> (\<forall>m < n. xs ! m \<noteq> JNull \<and> xs ! m \<noteq> JUndefined \<and> get_prop (xs ! m) ''id'' \<noteq> JStr i)"
proof (induction xs arbitrary: n)
  case Nil
  then show ?case by simp
next
  case (Cons x xs)
  show ?case
  proof (cases "get_prop x ''id'' = JStr i")
    case True
    with Cons.prems show ?thesis by (auto split: if_splits)
  next
    case False
    with Cons.prems obtain n' where n': "findIndex xs i = Inr (Some n')" "n = Suc n'"
      and x: "x \<noteq> JNull" "x \<noteq> JUndefined"
      by (auto split: if_splits sum.splits option.splits)
    from Cons.IH [OF n'(1)] n'(2) x False show ?thesis
      by (auto simp: nth_Cons split: nat.splits)
  qed
qed



lemma is_json_get_prop: "is_json s \<Longrightarrow> get_prop s k = JUndefined \<or> is_json (get_prop s k)"
proof (cases s)
  case (JObj kvs)
  assume "is_json s"
  with JObj have w: "\<forall>w \<in> set (map snd kvs). is_json w" by (simp add: is_json_members_iff)
  show ?thesis
  proof (cases "map_of kvs k")
    case None
    with JObj show ?thesis by simp
  next
    case (Some v)
    then have "(k, v) \<in> set kvs" by (rule map_of_SomeD)
    then have "v \<in> set (map snd kvs)" by force
    with w Some JObj show ?thesis by auto
  qed
qed simp_all

lemma get_prop_json_image_is_json:
  assumes "wf_val r" and "get_prop r k = JUndefined \<or> is_json (get_prop r k)"
  shows "get_prop (json_image r) k = get_prop r k"
  using assms(2) json_image_id(1) [of "get_prop r k"]
  by (auto simp: get_prop_json_image [OF assms(1)] split: jsval.splits)

lemma load_after_update:
  assumes "loadSubmissions fs = Inr (JArr xs)" and "wf_val r"
  shows "loadSubmissions (File (SerializeJSONProperty 0 (JArr (xs[n := r]))))
         = Inr (JArr (xs[n := json_image r]))"
proof -
  have j: "is_json_list xs"
    using loadSubmissions_is_json [OF assms(1)] by simp
  have "\<forall>x \<in> set (xs[n := r]). wf_val x"
    using assms(2) is_json_wf(2) [OF j] set_update_subset_insert [of xs n r]
    by (auto simp: wf_list_iff)
  then have "wf_val (JArr (xs[n := r]))"
    by (simp add: wf_list_iff)
  then show ?thesis
    using load_serialised [of "JArr (xs[n := r])"] json_image_id(2) [OF j]
    by (simp add: json_image_list_map map_update)
qed


lemma minted_store_cases:
  assumes "loadSubmissions fs = Inr (JArr xs)"
  shows "store (minted fs i b) = fs
       \<or> (\<exists>n. findIndex xs i = Inr (Some n)
             \<and> store (minted fs i b)
                 = File (SerializeJSONProperty 0 (JArr (xs[n := minted_record (xs ! n) b]))))"
  using assms
  by (auto simp: minted_def Let_def reply_def dest: saveSubmissions_Inr
           split: sum.splits option.splits)



subsection \<open>The remote table\<close>


lemma json_image_patch_keys:
  "k \<notin> set minted_keys \<Longrightarrow> k \<notin> fst ` set (json_image_members (evidence_patch b))"
  using json_image_members_keys [of k _ "evidence_patch b"] evidence_patch_keys [of b]
  by (metis imageE prod.collapse set_map)


lemma get_prop_apply_patch_other:
  "k \<notin> fst ` set patch \<Longrightarrow> get_prop (apply_patch x patch) k = get_prop x k"
  using map_of_write_props_other [of k patch "spread x"] get_prop_spread [of x k]
  by (simp add: apply_patch_write_props)






lemma minted_sb_cases:
  "store (minted_sb e t i b) = t
   \<or> (supabase_error e = None \<and> b \<noteq> JUndefined \<and> b \<noteq> JNull
      \<and> (\<exists>r. filter (\<lambda>x. get_prop x ''id'' = JStr i) t = [r])
      \<and> store (minted_sb e t i b) = map (patch_row i b) t)"
proof -
  have p: "(\<lambda>x. if get_prop x ''id'' = JStr i
                then apply_patch x (json_image_members (evidence_patch b)) else x)
           = patch_row i b"
    by (simp add: patch_row_def fun_eq_iff)
  show ?thesis
    by (auto simp: minted_sb_def sb_update_eq_single_def reply_def Let_def
          evidence_patch_def [symmetric] p
          split: option.splits list.splits)
qed






text \<open>
  C9. Marking as minted changes the properties \<^verbatim>\<open>status\<close>, \<^verbatim>\<open>txHash\<close>,
  \<^verbatim>\<open>tokenId\<close> and \<^verbatim>\<open>metadataURI\<close> of the matched record only: the store keeps its
  length, every record with another id is what it was, and every other property of every
  record (its id among them) reads as before, in the flat-file and in the remote-table
  server.
\<close>

theorem minted_changes_only_its_fields:
  assumes "wf_val b"
  shows "(loadSubmissions fs = Inr (JArr xs) \<longrightarrow>
            length (stored_records (store (minted fs i b))) = length xs
          \<and> (\<forall>m < length xs. get_prop (xs ! m) ''id'' \<noteq> JStr i \<longrightarrow>
                stored_records (store (minted fs i b)) ! m = xs ! m)
          \<and> (\<forall>m < length xs. \<forall>k. k \<notin> set minted_keys \<longrightarrow>
                get_prop (stored_records (store (minted fs i b)) ! m) k = get_prop (xs ! m) k))
       \<and> length (store (minted_sb e t i b)) = length t
       \<and> (\<forall>m < length t. get_prop (t ! m) ''id'' \<noteq> JStr i \<longrightarrow>
             store (minted_sb e t i b) ! m = t ! m)
       \<and> (\<forall>m < length t. \<forall>k. k \<notin> set minted_keys \<longrightarrow>
             get_prop (store (minted_sb e t i b) ! m) k = get_prop (t ! m) k)"
proof -
  have flat: "length (stored_records (store (minted fs i b))) = length xs
          \<and> (\<forall>m < length xs. get_prop (xs ! m) ''id'' \<noteq> JStr i \<longrightarrow>
                stored_records (store (minted fs i b)) ! m = xs ! m)
          \<and> (\<forall>m < length xs. \<forall>k. k \<notin> set minted_keys \<longrightarrow>
                get_prop (stored_records (store (minted fs i b)) ! m) k = get_prop (xs ! m) k)"
    if l: "loadSubmissions fs = Inr (JArr xs)"
  proof -
    from minted_store_cases [OF l, of i b]
    consider "store (minted fs i b) = fs"
      | n where "findIndex xs i = Inr (Some n)"
          "store (minted fs i b)
             = File (SerializeJSONProperty 0 (JArr (xs[n := minted_record (xs ! n) b])))"
      by blast
    then show ?thesis
    proof cases
      case 1
      with l show ?thesis by (simp add: stored_records_def)
    next
      case 2
      note f = findIndex_Some [OF 2(1)]
      let ?r = "minted_record (xs ! n) b"
      have x: "is_json (xs ! n)"
        using loaded_elements [OF l] f by simp
      have wr: "wf_val ?r"
        using is_json_wf(1) [OF x] assms by (rule wf_minted_record)
      have sr: "stored_records (store (minted fs i b)) = xs[n := json_image ?r]"
        using load_after_update [OF l wr, of n] 2(2) by (simp add: stored_records_def)
      have other: "get_prop (json_image ?r) k = get_prop (xs ! n) k"
        if "k \<notin> set minted_keys" for k
        using get_prop_json_image_is_json [OF wr, of k] is_json_get_prop [OF x, of k]
          get_prop_minted_record_other [OF that, of "xs ! n" b]
        by simp
      show ?thesis
        using sr f other by (auto simp: nth_list_update)
    qed
  qed
  have remote: "length (store (minted_sb e t i b)) = length t
       \<and> (\<forall>m < length t. get_prop (t ! m) ''id'' \<noteq> JStr i \<longrightarrow>
             store (minted_sb e t i b) ! m = t ! m)
       \<and> (\<forall>m < length t. \<forall>k. k \<notin> set minted_keys \<longrightarrow>
             get_prop (store (minted_sb e t i b) ! m) k = get_prop (t ! m) k)"
  proof -
    have p: "get_prop (patch_row i b x) k = get_prop x k" if "k \<notin> set minted_keys" for k x
      using json_image_patch_keys [OF that, of b]
      by (simp add: patch_row_def get_prop_apply_patch_other)
    from minted_sb_cases [of e t i b]
    consider "store (minted_sb e t i b) = t"
      | "store (minted_sb e t i b) = map (patch_row i b) t"
      by blast
    then show ?thesis
    proof cases
      case 1
      then show ?thesis by simp
    next
      case 2
      then show ?thesis
        using p by (simp add: patch_row_def)
    qed
  qed
  from flat remote show ?thesis by blast
qed

theorem minted_changes_only_its_fields_witness:
  "wf_val example_evidence
   \<and> loadSubmissions one_upload = Inr (JArr (stored_records one_upload))
   \<and> length (stored_records one_upload) = 1
   \<and> ''id'' \<notin> set minted_keys \<and> ''description'' \<notin> set minted_keys
   \<and> status (response (minted one_upload ''id-1'' example_evidence)) = 200
   \<and> length (stored_records (store (minted one_upload ''id-1'' example_evidence))) = 1
   \<and> get_prop (stored_records (store (minted one_upload ''id-1'' example_evidence)) ! 0) ''id''
       = JStr ''id-1''
   \<and> get_prop (stored_records (store (minted one_upload ''id-1'' example_evidence)) ! 0)
         ''description'' = JStr ''mangrove plot''
   \<and> length three_rows = 3
   \<and> get_prop (three_rows ! 1) ''id'' \<noteq> JStr ''id-1''
   \<and> store (minted_sb example_env three_rows ''id-1'' example_evidence) ! 1 = three_rows ! 1
   \<and> get_prop (store (minted_sb example_env three_rows ''id-1'' example_evidence) ! 0) ''id''
       = JStr ''id-1''"
proof -
  have h: "wf_val example_evidence"
    by (simp add: example_evidence_def)
  have a: "loadSubmissions one_upload = Inr (JArr (stored_records one_upload))"
    "length (stored_records one_upload) = 1"
    "get_prop (stored_records one_upload ! 0) ''id'' = JStr ''id-1''"
    "get_prop (stored_records one_upload ! 0) ''description'' = JStr ''mangrove plot''"
    "length three_rows = 3"
    "get_prop (three_rows ! 1) ''id'' \<noteq> JStr ''id-1''"
    "get_prop (three_rows ! 0) ''id'' = JStr ''id-1''"
    "status (response (minted one_upload ''id-1'' example_evidence)) = 200"
    by code_simp+
  have k: "''id'' \<notin> set minted_keys" "''description'' \<notin> set minted_keys"
    by (simp_all add: minted_keys_def)
  from minted_changes_only_its_fields [OF h, where fs = one_upload
      and xs = "stored_records one_upload" and i = "''id-1''" and e = example_env
      and t = three_rows] a(1)
  have "length (stored_records (store (minted one_upload ''id-1'' example_evidence)))
          = length (stored_records one_upload)"
    and "\<forall>m < length (stored_records one_upload). \<forall>k. k \<notin> set minted_keys \<longrightarrow>
           get_prop (stored_records (store (minted one_upload ''id-1'' example_evidence)) ! m) k
             = get_prop (stored_records one_upload ! m) k"
    and "\<forall>m < length three_rows. get_prop (three_rows ! m) ''id'' \<noteq> JStr ''id-1'' \<longrightarrow>
           store (minted_sb example_env three_rows ''id-1'' example_evidence) ! m = three_rows ! m"
    and "\<forall>m < length three_rows. \<forall>k. k \<notin> set minted_keys \<longrightarrow>
           get_prop (store (minted_sb example_env three_rows ''id-1'' example_evidence) ! m) k
             = get_prop (three_rows ! m) k"
    by blast+
  with a k h show ?thesis
    by simp
qed

end
